theory Spec2Isabelle
  imports Complex_Main "HOL-Library.AList"
begin

section \<open>Numbers and browser timers\<close>

text \<open>
  The components are React function components. Their state lives in \<open>useState\<close> cells
  and \<open>useRef\<close> boxes, and everything that happens later is started by
  \<open>setTimeout\<close> / \<open>setInterval\<close>. A component is modelled as a record of
  its state cells and refs, together with the timers it has registered in the browser.
  A state updater passed to a \<open>set...\<close> function is applied at once.

  JavaScript numbers are IEEE doubles. Activation values are modelled as exact
  rationals: \<open>0.96\<close>, \<open>0.65\<close>, \<open>0.05\<close> are the decimal fractions the source
  writes, and products and differences are exact.

  A registered timer has the id the browser handed out, the time in milliseconds at
  which it is due, the period for an interval (\<open>None\<close> for a one-shot timeout) and
  the callback, which is a value of a datatype per component.
\<close>

record 'cb timer =
  tid :: nat
  due :: nat
  every :: "nat option"
  callback :: 'cb

text \<open>\<open>clearTimeout(id)\<close> and \<open>clearInterval(id)\<close>: the timer is forgotten; an unknown id
  changes nothing.\<close>

definition clearTimer :: "nat \<Rightarrow> 'cb timer list \<Rightarrow> 'cb timer list" where
  "clearTimer i ts = filter (\<lambda>t. tid t \<noteq> i) ts"

text \<open>What is left of the timer table when timer \<open>t\<close> fires: a timeout is dropped, an
  interval is due again one period later.\<close>

definition afterFire :: "'cb timer \<Rightarrow> 'cb timer list \<Rightarrow> 'cb timer list" where
  "afterFire t ts =
     (case every t of
        None \<Rightarrow> clearTimer (tid t) ts
      | Some p \<Rightarrow> map (\<lambda>u. if tid u = tid t then u\<lparr>due := due u + p\<rparr> else u) ts)"

text \<open>The pending timer that is due first; among equals the one registered first.\<close>

fun earliest :: "'cb timer list \<Rightarrow> 'cb timer option" where
  "earliest [] = None"
| "earliest (t # ts) =
     (case earliest ts of
        None \<Rightarrow> Some t
      | Some u \<Rightarrow> if due u < due t then Some u else Some t)"

section \<open>The 3D activation-diffusion animation (EngramNetwork3D)\<close>

datatype nodeType = Query | Concept | Raw

record EngramNode =
  nid :: nat
  position :: "rat \<times> rat \<times> rat"
  ntype :: nodeType

record EngramEdge =
  source :: nat
  target :: nat

text \<open>The six nodes and six edges of \<open>EngramNetwork3D\<close> (display labels left out).\<close>

definition nodes :: "EngramNode list" where
  "nodes =
    [\<lparr>nid = 0, position = (0, 0.6, 0), ntype = Query\<rparr>,
     \<lparr>nid = 1, position = (- 1.6, 1.3, 0.6), ntype = Concept\<rparr>,
     \<lparr>nid = 2, position = (1.6, 1.3, - 0.6), ntype = Concept\<rparr>,
     \<lparr>nid = 3, position = (- 2.0, - 0.6, 0.4), ntype = Raw\<rparr>,
     \<lparr>nid = 4, position = (2.0, - 0.6, - 0.4), ntype = Raw\<rparr>,
     \<lparr>nid = 5, position = (0, - 1.4, 0), ntype = Concept\<rparr>]"

definition edges :: "EngramEdge list" where
  "edges =
    [\<lparr>source = 0, target = 1\<rparr>,
     \<lparr>source = 0, target = 2\<rparr>,
     \<lparr>source = 1, target = 3\<rparr>,
     \<lparr>source = 2, target = 4\<rparr>,
     \<lparr>source = 4, target = 5\<rparr>,
     \<lparr>source = 1, target = 2\<rparr>]"

text \<open>The callbacks \<open>handleActivate\<close> registers: the body of \<open>spreadActivation\<close>'s
  timeout (closing over \<open>sourceId\<close>, \<open>strength\<close>, \<open>depth\<close>), the decay interval, and
  the pulse-wave cleanup.\<close>

datatype cb3d = Spread nat rat nat | Decay | PulseCleanup

text \<open>The \<open>Map<number, number>\<close> of activations is an association list in insertion
  order, as a JavaScript \<open>Map\<close> iterates; \<open>Map.set\<close> is \<open>AList.update\<close>.\<close>

record engram3d =
  activations :: "(nat \<times> rat) list"
  pulseWaves :: "((rat \<times> rat \<times> rat) \<times> rat) list"
  clockRef :: rat
  decayIntervalRef :: "nat option"
  spreadTimeoutsRef :: "nat list"
  pulseCleanupRef :: "nat option"
  timers :: "cb3d timer list"
  nextId :: nat
  now :: nat
  mounted :: bool

definition init3d :: engram3d where
  "init3d = \<lparr>activations = [], pulseWaves = [], clockRef = 0,
     decayIntervalRef = None, spreadTimeoutsRef = [], pulseCleanupRef = None,
     timers = [], nextId = 1, now = 0, mounted = True\<rparr>"

text \<open>\<open>activations.get(id) || 0\<close>: the value a node is drawn with.\<close>

definition activationOf :: "(nat \<times> rat) list \<Rightarrow> nat \<Rightarrow> rat" where
  "activationOf m k = (case map_of m k of None \<Rightarrow> 0 | Some v \<Rightarrow> v)"

definition setTimer :: "cb3d \<Rightarrow> nat \<Rightarrow> nat option \<Rightarrow> engram3d \<Rightarrow> nat \<times> engram3d" where
  "setTimer cb delay per s =
     (nextId s,
      s\<lparr>timers := timers s @ [\<lparr>tid = nextId s, due = now s + delay, every = per, callback = cb\<rparr>],
        nextId := Suc (nextId s)\<rparr>)"

definition cleanupTimers :: "engram3d \<Rightarrow> engram3d" where
  "cleanupTimers s =
     (let s1 = (case decayIntervalRef s of
                  Some i \<Rightarrow> s\<lparr>timers := clearTimer i (timers s), decayIntervalRef := None\<rparr>
                | None \<Rightarrow> s);
          s2 = s1\<lparr>timers := foldl (\<lambda>ts i. clearTimer i ts) (timers s1) (spreadTimeoutsRef s1),
                  spreadTimeoutsRef := []\<rparr>
      in (case pulseCleanupRef s2 of
            Some i \<Rightarrow> s2\<lparr>timers := clearTimer i (timers s2), pulseCleanupRef := None\<rparr>
          | None \<Rightarrow> s2))"

definition spreadActivation :: "nat \<Rightarrow> rat \<Rightarrow> nat \<Rightarrow> engram3d \<Rightarrow> engram3d" where
  "spreadActivation sourceId strength depth s =
     (if depth > 3 \<or> strength < 0.1 then s
      else (let (timeoutId, s1) = setTimer (Spread sourceId strength depth) (350 * depth) None s
            in s1\<lparr>spreadTimeoutsRef := spreadTimeoutsRef s1 @ [timeoutId]\<rparr>))"

text \<open>The updater \<open>spreadActivation\<close> passes to \<open>setActivations\<close> for one neighbour.\<close>

definition transferTo :: "nat \<Rightarrow> rat \<Rightarrow> (nat \<times> rat) list \<Rightarrow> (nat \<times> rat) list" where
  "transferTo neighborId transferStrength prev =
     (let currentActivation = activationOf prev neighborId
      in if transferStrength > currentActivation
         then AList.update neighborId transferStrength prev
         else prev)"

text \<open>The body of \<open>connectedEdges.forEach\<close> for one edge.\<close>

definition spreadEdge :: "nat \<Rightarrow> rat \<Rightarrow> nat \<Rightarrow> engram3d \<Rightarrow> EngramEdge \<Rightarrow> engram3d" where
  "spreadEdge sourceId strength depth s edge =
     (let neighborId = (if source edge = sourceId then target edge else source edge);
          transferStrength = strength * 0.65;
          s1 = s\<lparr>activations := transferTo neighborId transferStrength (activations s)\<rparr>;
          s2 = (case find (\<lambda>n. nid n = neighborId) nodes of
                  Some neighborNode \<Rightarrow>
                    if transferStrength > 0.2
                    then s1\<lparr>pulseWaves := pulseWaves s1 @ [(position neighborNode, clockRef s1)]\<rparr>
                    else s1
                | None \<Rightarrow> s1)
      in spreadActivation neighborId transferStrength (depth + 1) s2)"

definition connectedEdges :: "nat \<Rightarrow> EngramEdge list" where
  "connectedEdges sourceId = filter (\<lambda>e. source e = sourceId \<or> target e = sourceId) edges"

definition runSpread :: "nat \<Rightarrow> rat \<Rightarrow> nat \<Rightarrow> engram3d \<Rightarrow> engram3d" where
  "runSpread sourceId strength depth s =
     foldl (spreadEdge sourceId strength depth) s (connectedEdges sourceId)"

text \<open>The new map the decay interval builds: every value times \<open>0.96\<close>, kept when the
  product is above \<open>0.05\<close>.\<close>

definition decayMap :: "(nat \<times> rat) list \<Rightarrow> (nat \<times> rat) list" where
  "decayMap prev = filter (\<lambda>(key, newValue). newValue > 0.05) (map (\<lambda>(key, value). (key, value * 0.96)) prev)"

definition runDecay :: "engram3d \<Rightarrow> engram3d" where
  "runDecay s =
     (let newMap = decayMap (activations s);
          hasActiveNodes = (newMap \<noteq> []);
          s1 = (if \<not> hasActiveNodes
                then (case decayIntervalRef s of
                        Some i \<Rightarrow> s\<lparr>timers := clearTimer i (timers s), decayIntervalRef := None\<rparr>
                      | None \<Rightarrow> s)
                else s)
      in s1\<lparr>activations := newMap\<rparr>)"

fun runCallback :: "cb3d \<Rightarrow> engram3d \<Rightarrow> engram3d" where
  "runCallback (Spread sourceId strength depth) s = runSpread sourceId strength depth s"
| "runCallback Decay s = runDecay s"
| "runCallback PulseCleanup s = s\<lparr>pulseWaves := []\<rparr>"

definition handleActivate :: "nat \<Rightarrow> engram3d \<Rightarrow> engram3d" where
  "handleActivate i s =
     (case find (\<lambda>n. nid n = i) nodes of
        None \<Rightarrow> s
      | Some node \<Rightarrow>
          (let s1 = cleanupTimers s;
               s2 = s1\<lparr>pulseWaves := pulseWaves s1 @ [(position node, clockRef s1)]\<rparr>;
               s3 = s2\<lparr>activations := AList.update i 1 (activations s2)\<rparr>;
               s4 = spreadActivation i 1 1 s3;
               (d, s5) = setTimer Decay 80 (Some 80) s4;
               s6 = s5\<lparr>decayIntervalRef := Some d\<rparr>;
               (p, s7) = setTimer PulseCleanup 4000 None s6
           in s7\<lparr>pulseCleanupRef := Some p\<rparr>))"

text \<open>The browser runs the callback of pending timer \<open>i\<close>; the clock has reached the
  time the timer was due.\<close>

definition fire3d :: "nat \<Rightarrow> engram3d \<Rightarrow> engram3d" where
  "fire3d i s =
     (case find (\<lambda>t. tid t = i) (timers s) of
        None \<Rightarrow> s
      | Some t \<Rightarrow> runCallback (callback t) (s\<lparr>now := max (now s) (due t), timers := afterFire t (timers s)\<rparr>))"

text \<open>What can happen to a mounted \<open>EngramNetwork3D\<close>: a node is clicked, a pending
  timer fires, the animation frame stores the scene clock, the component unmounts
  (the effect cleanup calls \<open>cleanupTimers\<close>). Clicks need the component on screen.\<close>

datatype ev3d = Click3 nat | Fire3 nat | UpdateClock rat | Unmount3

fun step3d :: "engram3d \<Rightarrow> ev3d \<Rightarrow> engram3d" where
  "step3d s (Click3 i) = (if mounted s then handleActivate i s else s)"
| "step3d s (Fire3 i) = fire3d i s"
| "step3d s (UpdateClock t) = s\<lparr>clockRef := t\<rparr>"
| "step3d s Unmount3 = (if mounted s then (cleanupTimers s)\<lparr>mounted := False\<rparr> else s)"

definition run3d :: "ev3d list \<Rightarrow> engram3d" where
  "run3d evs = foldl step3d init3d evs"

text \<open>The step of the event loop that lets time pass until the next pending timer is
  due and runs it.\<close>

definition fireNext3d :: "engram3d \<Rightarrow> engram3d" where
  "fireNext3d s = (case earliest (timers s) of None \<Rightarrow> s | Some t \<Rightarrow> fire3d (tid t) s)"

section \<open>The 2D activation-diffusion animation (MemoryActivationDiagram)\<close>

record node2d =
  id2d :: nat
  x2d :: nat
  y2d :: nat
  type2d :: nodeType
  active :: rat

record edge2d =
  s2d :: nat
  t2d :: nat

definition initialNodes2d :: "node2d list" where
  "initialNodes2d =
    [\<lparr>id2d = 0, x2d = 50, y2d = 50, type2d = Query, active = 0\<rparr>,
     \<lparr>id2d = 1, x2d = 30, y2d = 30, type2d = Concept, active = 0\<rparr>,
     \<lparr>id2d = 2, x2d = 70, y2d = 30, type2d = Concept, active = 0\<rparr>,
     \<lparr>id2d = 3, x2d = 20, y2d = 60, type2d = Raw, active = 0\<rparr>,
     \<lparr>id2d = 4, x2d = 80, y2d = 60, type2d = Raw, active = 0\<rparr>,
     \<lparr>id2d = 5, x2d = 50, y2d = 80, type2d = Concept, active = 0\<rparr>]"

definition edges2d :: "edge2d list" where
  "edges2d =
    [\<lparr>s2d = 0, t2d = 1\<rparr>, \<lparr>s2d = 0, t2d = 2\<rparr>,
     \<lparr>s2d = 1, t2d = 3\<rparr>,
     \<lparr>s2d = 2, t2d = 4\<rparr>,
     \<lparr>s2d = 4, t2d = 5\<rparr>,
     \<lparr>s2d = 2, t2d = 1\<rparr>]"

text \<open>\<open>Array.prototype.findIndex\<close>, with \<open>None\<close> for \<open>-1\<close>.\<close>

fun findIndex :: "('a \<Rightarrow> bool) \<Rightarrow> 'a list \<Rightarrow> nat option" where
  "findIndex P [] = None"
| "findIndex P (a # as) =
     (if P a then Some 0 else (case findIndex P as of None \<Rightarrow> None | Some i \<Rightarrow> Some (Suc i)))"

definition activateNode :: "nat \<Rightarrow> node2d list \<Rightarrow> node2d list" where
  "activateNode i prev = map (\<lambda>n. if id2d n = i then n\<lparr>active := 1\<rparr> else n) prev"

text \<open>
  The interval callback. \<open>newNodes = [...prev]\<close> copies the array, not the node
  objects: \<open>newNodes\<close> and \<open>prev\<close> hold the same objects, so the assignment
  \<open>n.active = ...\<close> is seen through both, and \<open>prev.find\<close> in the spread loop reads the
  activations as the decay loop and the earlier edges have left them. The model
  therefore threads one list through both loops. \<open>changed\<close> is false only when no
  assignment has run, so the list returned for \<open>prev\<close> is the untouched one.
\<close>

definition decayNode :: "node2d \<Rightarrow> node2d" where
  "decayNode n = (if active n > 0 then n\<lparr>active := max 0 (active n - 0.05)\<rparr> else n)"

definition spreadEdge2d :: "node2d list \<times> bool \<Rightarrow> edge2d \<Rightarrow> node2d list \<times> bool" where
  "spreadEdge2d st edge =
     (let (newNodes, changed) = st
      in (case (find (\<lambda>n. id2d n = s2d edge) newNodes, findIndex (\<lambda>n. id2d n = t2d edge) newNodes) of
            (Some src, Some targetIndex) \<Rightarrow>
              if active src > 0.2
              then (let transfer = active src * 0.1;
                        tgt = newNodes ! targetIndex
                    in if active tgt < active src
                       then (newNodes[targetIndex := tgt\<lparr>active := min 1 (active tgt + transfer)\<rparr>], True)
                       else (newNodes, changed))
              else (newNodes, changed)
          | _ \<Rightarrow> (newNodes, changed)))"

definition tick2d :: "node2d list \<Rightarrow> node2d list" where
  "tick2d prev =
     (let decayed = (map decayNode prev, list_ex (\<lambda>n. active n > 0) prev);
          (newNodes, changed) = foldl spreadEdge2d decayed edges2d
      in if changed then newNodes else prev)"

datatype cb2d = Tick2d

record diagram2d =
  nodes2d :: "node2d list"
  timers2d :: "cb2d timer list"
  interval2d :: "nat option"
  now2d :: nat
  mounted2d :: bool

text \<open>The state after the first render: the mount effect has called
  \<open>setInterval(..., 100)\<close> and keeps the id for its cleanup.\<close>

definition init2d :: diagram2d where
  "init2d = \<lparr>nodes2d = initialNodes2d,
     timers2d = [\<lparr>tid = 1, due = 100, every = Some 100, callback = Tick2d\<rparr>],
     interval2d = Some 1, now2d = 0, mounted2d = True\<rparr>"

definition fire2d :: "nat \<Rightarrow> diagram2d \<Rightarrow> diagram2d" where
  "fire2d i s =
     (case find (\<lambda>t. tid t = i) (timers2d s) of
        None \<Rightarrow> s
      | Some t \<Rightarrow> s\<lparr>now2d := max (now2d s) (due t), timers2d := afterFire t (timers2d s),
                    nodes2d := tick2d (nodes2d s)\<rparr>)"

definition unmount2d :: "diagram2d \<Rightarrow> diagram2d" where
  "unmount2d s =
     (case interval2d s of
        Some i \<Rightarrow> s\<lparr>timers2d := clearTimer i (timers2d s), mounted2d := False\<rparr>
      | None \<Rightarrow> s\<lparr>mounted2d := False\<rparr>)"

datatype ev2d = Click2 nat | Fire2 nat | Unmount2

fun step2d :: "diagram2d \<Rightarrow> ev2d \<Rightarrow> diagram2d" where
  "step2d s (Click2 i) = (if mounted2d s then s\<lparr>nodes2d := activateNode i (nodes2d s)\<rparr> else s)"
| "step2d s (Fire2 i) = fire2d i s"
| "step2d s Unmount2 = (if mounted2d s then unmount2d s else s)"

definition run2d :: "ev2d list \<Rightarrow> diagram2d" where
  "run2d evs = foldl step2d init2d evs"

text \<open>The activation a node of the 2D diagram is drawn with.\<close>

definition activeOf :: "node2d list \<Rightarrow> nat \<Rightarrow> rat" where
  "activeOf ns i = (case find (\<lambda>n. id2d n = i) ns of None \<Rightarrow> 0 | Some n \<Rightarrow> active n)"

section \<open>The scripted chat demo (DemoSimulation)\<close>

datatype role = User | Agent

text \<open>A chat message. \<open>msgId\<close> is \<open>Date.now()\<close> (plus one for the agent), \<open>msgText\<close> is the field \<open>text\<close>, and
  \<open>timestamp\<close> holds the clock value that \<open>toLocaleTimeString\<close> formats.\<close>

record Message =
  msgId :: nat
  role :: role
  msgText :: string
  timestamp :: nat

text \<open>An entry of the step script. Step 0 has neither \<open>user\<close> nor \<open>agent\<close>; the
  \<open>state\<close> shown in the right-hand panel is display data and left out.\<close>

record stepData =
  stepId :: nat
  user :: "string option"
  agent :: "string option"

definition steps :: "stepData list" where
  "steps =
    [\<lparr>stepId = 0, user = None, agent = None\<rparr>,
     \<lparr>stepId = 1,
       user = Some ''I need a tool that can query real-time stock data from Alpha Vantage.'',
       agent = Some ''I've researched the documentation. I have generated a tool definition for 'alpha_vantage_api' with 'get_quote' capabilities. Validating in sandbox...''\<rparr>,
     \<lparr>stepId = 2,
       user = Some ''Great. Now create a stock trading character named 'Wolf' that uses this tool.'',
       agent = Some ''Understood. Initiating Nuwa engine... \<newline>\<newline>I have created the 'Wolf' persona using the ISSUE framework. The agent is now active and bound to the Alpha Vantage tool.''\<rparr>,
     \<lparr>stepId = 3,
       user = Some ''I currently hold Tesla (TSLA) and Amazon (AMZN) stocks. I hope to make a profit.'',
       agent = Some ''Noted. I have analyzed this input. Saving core facts to Engram memory: 'User holds TSLA, AMZN'.''\<rparr>,
     \<lparr>stepId = 4,
       user = Some ''System: *2 Hours Later (New Session)*... \<newline>Activate the stock analyst. Recall my stocks and analyze today's market.'',
       agent = Some ''Welcome back. Retrieving context... \<newline>\<newline>Recalling from Long-term Memory: You hold TSLA and AMZN. \<newline>\<newline>Fetching current data... TSLA is up 2.1%. AMZN is down 0.5%. Based on your portfolio, I recommend holding.''\<rparr>]"

text \<open>\<open>value || ""\<close> on an optional string.\<close>

definition orEmpty :: "string option \<Rightarrow> string" where
  "orEmpty v = (case v of None \<Rightarrow> [] | Some str \<Rightarrow> str)"

text \<open>The three timeouts of \<open>handleNextStep\<close>; the first two close over
  \<open>nextStepIdx\<close> (and \<open>nextStepData = steps[nextStepIdx]\<close>).\<close>

datatype cbDemo = UserMessage nat | AgentMessage nat | CelebrationOff

record demo =
  step :: nat
  messages :: "Message list"
  isTyping :: bool
  showCelebration :: bool
  timersD :: "cbDemo timer list"
  nextIdD :: nat
  nowD :: nat
  mountedD :: bool

definition initDemo :: demo where
  "initDemo = \<lparr>step = 0, messages = [], isTyping = False, showCelebration = False,
     timersD = [], nextIdD = 1, nowD = 0, mountedD = True\<rparr>"

definition setTimeoutD :: "cbDemo \<Rightarrow> nat \<Rightarrow> demo \<Rightarrow> demo" where
  "setTimeoutD cb delay s =
     s\<lparr>timersD := timersD s @ [\<lparr>tid = nextIdD s, due = nowD s + delay, every = None, callback = cb\<rparr>],
       nextIdD := Suc (nextIdD s)\<rparr>"

definition handleNextStep :: "demo \<Rightarrow> demo" where
  "handleNextStep s =
     (if step s \<ge> length steps - 1 then s
      else (let nextStepIdx = step s + 1
            in setTimeoutD (UserMessage nextStepIdx) 800 (s\<lparr>step := nextStepIdx, isTyping := True\<rparr>)))"

definition resetDemo :: "demo \<Rightarrow> demo" where
  "resetDemo s = s\<lparr>step := 0, messages := [], isTyping := False, showCelebration := False\<rparr>"

text \<open>The timeout callbacks. \<open>nextStepIdx\<close> is always an index of \<open>steps\<close> where
  \<open>handleNextStep\<close> registers them.\<close>

fun runCallbackD :: "cbDemo \<Rightarrow> demo \<Rightarrow> demo" where
  "runCallbackD (UserMessage nextStepIdx) s =
     setTimeoutD (AgentMessage nextStepIdx) 1500
       (s\<lparr>messages := messages s @
            [\<lparr>msgId = nowD s, role = User, msgText = orEmpty (user (steps ! nextStepIdx)), timestamp = nowD s\<rparr>]\<rparr>)"
| "runCallbackD (AgentMessage nextStepIdx) s =
     (let s1 = s\<lparr>messages := messages s @
                  [\<lparr>msgId = nowD s + 1, role = Agent, msgText = orEmpty (agent (steps ! nextStepIdx)), timestamp = nowD s\<rparr>],
                isTyping := False\<rparr>
      in if nextStepIdx = length steps - 1
         then setTimeoutD CelebrationOff 3000 (s1\<lparr>showCelebration := True\<rparr>)
         else s1)"
| "runCallbackD CelebrationOff s = s\<lparr>showCelebration := False\<rparr>"

definition fireD :: "nat \<Rightarrow> demo \<Rightarrow> demo" where
  "fireD i s =
     (case find (\<lambda>t. tid t = i) (timersD s) of
        None \<Rightarrow> s
      | Some t \<Rightarrow> runCallbackD (callback t) (s\<lparr>nowD := max (nowD s) (due t), timersD := afterFire t (timersD s)\<rparr>))"

definition fireNextD :: "demo \<Rightarrow> demo" where
  "fireNextD s = (case earliest (timersD s) of None \<Rightarrow> s | Some t \<Rightarrow> fireD (tid t) s)"

text \<open>
  The events of the demo. The advance button is rendered while
  \<open>step < steps.length - 1\<close> and is disabled while \<open>isTyping\<close>; the reset button in the
  header is always there. \<open>DemoSimulation\<close> has one effect (scrolling) and it returns
  no cleanup, so unmounting runs no code of the component.
\<close>

datatype evDemo = Advance | Reset | FireNext | FireTimer nat | UnmountD

fun stepD :: "demo \<Rightarrow> evDemo \<Rightarrow> demo" where
  "stepD s Advance =
     (if mountedD s \<and> step s < length steps - 1 \<and> \<not> isTyping s then handleNextStep s else s)"
| "stepD s Reset = (if mountedD s then resetDemo s else s)"
| "stepD s FireNext = fireNextD s"
| "stepD s (FireTimer i) = fireD i s"
| "stepD s UnmountD = s\<lparr>mountedD := False\<rparr>"

definition runDemo :: "evDemo list \<Rightarrow> demo" where
  "runDemo evs = foldl stepD initDemo evs"

text \<open>Advancing once and letting the two message timeouts elapse.\<close>

definition advanceAndWait :: "evDemo list" where
  "advanceAndWait = [Advance, FireNext, FireNext]"

definition transcript :: "demo \<Rightarrow> (role \<times> string) list" where
  "transcript s = map (\<lambda>m. (role m, msgText m)) (messages s)"

section \<open>The tech-spec viewer (TechSpecs)\<close>

datatype tab = pml | luban | acp

datatype viewer = PMLViewer | LubanWorkflow | ACPViewer

text \<open>One \<open>div role="tabpanel"\<close>: its id, its \<open>hidden\<close> attribute, and the child it
  renders (\<open>cond && <Viewer />\<close> renders nothing when \<open>cond\<close> is false).\<close>

record panel =
  panelId :: string
  hidden :: bool
  child :: "viewer option"

definition panels :: "tab \<Rightarrow> panel list" where
  "panels activeTab =
    [\<lparr>panelId = ''panel-pml'', hidden = (activeTab \<noteq> pml),
       child = (if activeTab = pml then Some PMLViewer else None)\<rparr>,
     \<lparr>panelId = ''panel-luban'', hidden = (activeTab \<noteq> luban),
       child = (if activeTab = luban then Some LubanWorkflow else None)\<rparr>,
     \<lparr>panelId = ''panel-acp'', hidden = (activeTab \<noteq> acp),
       child = (if activeTab = acp then Some ACPViewer else None)\<rparr>]"

text \<open>The panel a tab button controls (\<open>aria-controls\<close>) and the viewer it stands for.\<close>

fun panelOf :: "tab \<Rightarrow> string" where
  "panelOf pml = ''panel-pml''"
| "panelOf luban = ''panel-luban''"
| "panelOf acp = ''panel-acp''"

fun viewerOf :: "tab \<Rightarrow> viewer" where
  "viewerOf pml = PMLViewer"
| "viewerOf luban = LubanWorkflow"
| "viewerOf acp = ACPViewer"

definition visiblePanels :: "tab \<Rightarrow> panel list" where
  "visiblePanels activeTab = filter (\<lambda>p. \<not> hidden p) (panels activeTab)"

definition hiddenPanels :: "tab \<Rightarrow> panel list" where
  "hiddenPanels activeTab = filter hidden (panels activeTab)"

section \<open>The citation copy button (BibTeXSection)\<close>

definition bibtex :: string where
  "bibtex = ''@inproceedings{promptx2026,\<newline>  title={PromptX: A Cognitive Agent Platform with Long-term Memory},\<newline>  author={Wang, Binhao and Huang, Jianglin and Hu, Xiao and Jiang, Shan and Wang, Maolin and Yang, Ching-ho},\<newline>  booktitle={Proceedings of the WWW Companion '26},\<newline>  year={2026}\<newline>}''"

text \<open>\<open>navigator.clipboard.writeText\<close> returns a promise; the write succeeds
  (the promise is fulfilled and the clipboard holds the text) or fails (the promise
  is rejected and the clipboard is as before). \<open>handleCopy\<close> neither awaits the
  promise nor attaches a handler to it.\<close>

datatype writeResult = Fulfilled | Rejected

datatype cbBib = ResetCopied

record bibtexSection =
  copied :: bool
  clipboard :: "string option"
  timersB :: "cbBib timer list"
  nextIdB :: nat
  nowB :: nat

definition initBib :: bibtexSection where
  "initBib = \<lparr>copied = False, clipboard = None, timersB = [], nextIdB = 1, nowB = 0\<rparr>"

definition writeText :: "writeResult \<Rightarrow> string \<Rightarrow> bibtexSection \<Rightarrow> bibtexSection" where
  "writeText r data s = (case r of Fulfilled \<Rightarrow> s\<lparr>clipboard := Some data\<rparr> | Rejected \<Rightarrow> s)"

definition handleCopy :: "writeResult \<Rightarrow> bibtexSection \<Rightarrow> bibtexSection" where
  "handleCopy r s =
     (let s1 = writeText r bibtex s;
          s2 = s1\<lparr>copied := True\<rparr>
      in s2\<lparr>timersB := timersB s2 @ [\<lparr>tid = nextIdB s2, due = nowB s2 + 2000, every = None, callback = ResetCopied\<rparr>],
            nextIdB := Suc (nextIdB s2)\<rparr>)"

definition fireB :: "nat \<Rightarrow> bibtexSection \<Rightarrow> bibtexSection" where
  "fireB i s =
     (case find (\<lambda>t. tid t = i) (timersB s) of
        None \<Rightarrow> s
      | Some t \<Rightarrow> (case callback t of
                     ResetCopied \<Rightarrow> s\<lparr>nowB := max (nowB s) (due t), timersB := afterFire t (timersB s),
                                        copied := False\<rparr>))"

datatype evBib = Copy writeResult | FireB nat

fun stepB :: "bibtexSection \<Rightarrow> evBib \<Rightarrow> bibtexSection" where
  "stepB s (Copy r) = handleCopy r s"
| "stepB s (FireB i) = fireB i s"

definition runBib :: "evBib list \<Rightarrow> bibtexSection" where
  "runBib evs = foldl stepB initBib evs"

section \<open>The PML syntax highlighter (highlightPML)\<close>

text \<open>
  A JavaScript string is a sequence of UTF-16 code units, here natural numbers;
  \<open>js\<close> turns a literal of this theory into one. The character classes of the
  regular expressions (no \<open>u\<close> or \<open>i\<close> flag): \<open>[\w_]\<close> is \<open>[A-Za-z0-9_]\<close>, and
  \<open>\s\<close> is the white space and line terminators of ECMAScript.
\<close>

type_synonym jsString = "nat list"

definition js :: "string \<Rightarrow> jsString" where
  "js str = map of_char str"

definition isWord :: "nat \<Rightarrow> bool" where
  "isWord c = ((48 \<le> c \<and> c \<le> 57) \<or> (65 \<le> c \<and> c \<le> 90) \<or> c = 95 \<or> (97 \<le> c \<and> c \<le> 122))"

definition isSpace :: "nat \<Rightarrow> bool" where
  "isSpace c = ((9 \<le> c \<and> c \<le> 13) \<or> c = 32 \<or> c = 160 \<or> c = 5760 \<or> (8192 \<le> c \<and> c \<le> 8202)
      \<or> c = 8232 \<or> c = 8233 \<or> c = 8239 \<or> c = 8287 \<or> c = 12288 \<or> c = 65279)"

definition startsWith :: "jsString \<Rightarrow> jsString \<Rightarrow> bool" where
  "startsWith str p = (take (length p) str = p)"

text \<open>
  The regular expressions are matched by a backtracking matcher, and each of them
  has at most one way to match at a given position: every greedy repetition
  (\<open>[\w_]+\<close>, \<open>\s+\<close>, \<open>\s*\<close>, \<open>[^"]*\<close>) is followed by something that cannot
  start with a character of the repeated class, the optional \<open>/\<close> is followed by a
  word character or by \<open>>\<close>, and after giving up a whole attribute the matcher
  stands before white space followed by a word character, where \<open>\s*(\/?>)\<close> fails.
  So the greedy pass below finds the match whenever there is one.

  \<open>matchAttrBody\<close> matches \<open>([\w_]+)="([^"]*)"\<close> at the start of the string and
  gives the two groups and the length of the match.
\<close>

definition matchAttrBody :: "jsString \<Rightarrow> (jsString \<times> jsString \<times> nat) option" where
  "matchAttrBody str =
     (let attrName = takeWhile isWord str;
          r1 = dropWhile isWord str
      in if attrName = [] \<or> \<not> startsWith r1 [61, 34] then None
         else (let r2 = drop 2 r1;
                   attrValue = takeWhile (\<lambda>c. c \<noteq> 34) r2;
                   r3 = dropWhile (\<lambda>c. c \<noteq> 34) r2
               in if startsWith r3 [34]
                  then Some (attrName, attrValue, length attrName + 2 + length attrValue + 1)
                  else None))"

text \<open>One round of \<open>(?:\s+[\w_]+="[^"]*")\<close>: the length it matches.\<close>

definition matchAttrGroup :: "jsString \<Rightarrow> nat option" where
  "matchAttrGroup str =
     (let ws = takeWhile isSpace str
      in if ws = [] then None
         else (case matchAttrBody (dropWhile isSpace str) of
                 None \<Rightarrow> None
               | Some (attrName, attrValue, n) \<Rightarrow> Some (length ws + n)))"

text \<open>\<open>((?:\s+[\w_]+="[^"]*")*)\<close>: the length of the longest run of attributes.\<close>

function matchAttrs :: "jsString \<Rightarrow> nat" where
  "matchAttrs str = (case matchAttrGroup str of None \<Rightarrow> 0 | Some n \<Rightarrow> n + matchAttrs (drop n str))"
  by pat_completeness auto
termination
proof (relation "measure length")
  show "wf (measure length)" by simp
next
  fix str :: jsString and n
  assume m: "matchAttrGroup str = Some n"
  have "takeWhile isSpace str \<noteq> []"
    using m by (auto simp: matchAttrGroup_def Let_def split: if_splits)
  then have ne: "str \<noteq> []" by auto
  have "0 < n"
    using m by (auto simp: matchAttrGroup_def Let_def matchAttrBody_def split: if_splits option.splits)
  then show "(drop n str, str) \<in> measure length"
    using ne by simp
qed

text \<open>The result of \<open>remaining.match(/^(<\/?)([\w_]+)((?:\s+[\w_]+="[^"]*")*)\s*(\/?>)/)\<close>:
  the whole match and the four groups.\<close>

record tagGroups =
  full :: jsString
  bracket :: jsString
  tagName :: jsString
  attrs :: jsString
  closeBracket :: jsString

definition tagMatch :: "jsString \<Rightarrow> tagGroups option" where
  "tagMatch remaining =
     (if \<not> startsWith remaining [60] then None
      else (let b = (if startsWith remaining [60, 47] then [60, 47] else [60]);
                r1 = drop (length b) remaining;
                name = takeWhile isWord r1;
                r2 = dropWhile isWord r1;
                as = take (matchAttrs r2) r2;
                r3 = drop (matchAttrs r2) r2;
                ws = takeWhile isSpace r3;
                r4 = dropWhile isSpace r3;
                cb = (if startsWith r4 [47, 62] then [47, 62] else if startsWith r4 [62] then [62] else [])
            in if name = [] \<or> cb = [] then None
               else Some \<lparr>full = b @ name @ as @ ws @ cb, bracket = b, tagName = name,
                          attrs = as, closeBracket = cb\<rparr>))"

text \<open>A \<open><span className=...>\<close> with its text (the \<open>key\<close> is the position in
  \<open>parts\<close>).\<close>

datatype span = Span (className: string) (spanText: jsString)

text \<open>\<open>attrRegex.exec\<close> on the string from \<open>lastIndex\<close> on: the leftmost match of
  \<open>([\w_]+)="([^"]*)"\<close>, as its offset, its groups and its length.\<close>

fun execAttr :: "jsString \<Rightarrow> (nat \<times> jsString \<times> jsString \<times> nat) option" where
  "execAttr [] = None"
| "execAttr (c # cs) =
     (case matchAttrBody (c # cs) of
        Some (attrName, attrValue, n) \<Rightarrow> Some (0, attrName, attrValue, n)
      | None \<Rightarrow> (case execAttr cs of
                   None \<Rightarrow> None
                 | Some (i, attrName, attrValue, n) \<Rightarrow> Some (Suc i, attrName, attrValue, n)))"

text \<open>\<open>String.prototype.indexOf\<close>, with \<open>None\<close> for \<open>-1\<close>.\<close>

fun indexOf :: "jsString \<Rightarrow> jsString \<Rightarrow> nat option" where
  "indexOf [] p = (if p = [] then Some 0 else None)"
| "indexOf (c # cs) p =
     (if startsWith (c # cs) p then Some 0
      else (case indexOf cs p of None \<Rightarrow> None | Some i \<Rightarrow> Some (Suc i)))"

text \<open>The inner \<open>while\<close> loop over the attributes: \<open>lastIndex\<close> is the state of the
  global regular expression, \<open>attrStr\<close> the rest the loop keeps beside it. When
  \<open>indexOf\<close> gives \<open>-1\<close>, \<open>slice(-1 + length)\<close> drops \<open>length - 1\<close> code units.\<close>

function attrLoop :: "jsString \<Rightarrow> nat \<Rightarrow> jsString \<Rightarrow> span list" where
  "attrLoop as lastIndex attrStr =
     (case execAttr (drop lastIndex as) of
        None \<Rightarrow> []
      | Some (i, attrName, attrValue, n) \<Rightarrow>
          (let attrMatch0 = take n (drop (lastIndex + i) as);
               beforeAttr = indexOf attrStr attrMatch0;
               lead = (case beforeAttr of
                         Some b \<Rightarrow> if b > 0 then [Span ''text-stone-500'' (take b attrStr)] else []
                       | None \<Rightarrow> []);
               rest = (case beforeAttr of
                         Some b \<Rightarrow> drop (b + n) attrStr
                       | None \<Rightarrow> drop (n - 1) attrStr)
           in lead @
              [Span ''text-stone-500'' [32],
               Span ''text-sky-400'' attrName,
               Span ''text-stone-500'' [61],
               Span ''text-amber-400'' ([34] @ attrValue @ [34])] @
              attrLoop as (lastIndex + i + n) rest))"
  by pat_completeness auto
termination
proof -
  have body: "\<And>str a v m. matchAttrBody str = Some (a, v, m) \<Longrightarrow> 0 < m \<and> m \<le> length str"
  proof -
    fix str :: jsString and a v m
    assume b: "matchAttrBody str = Some (a, v, m)"
    let ?r1 = "dropWhile isWord str"
    let ?r2 = "drop 2 ?r1"
    let ?r3 = "dropWhile (\<lambda>c. c \<noteq> 34) ?r2"
    have m: "m = length (takeWhile isWord str) + 2 + length (takeWhile (\<lambda>c. c \<noteq> 34) ?r2) + 1"
      and s1: "startsWith ?r1 [61, 34]" and s3: "startsWith ?r3 [34]"
      using b by (auto simp: matchAttrBody_def Let_def split: if_splits)
    have sw: "length p \<le> length u" if "startsWith u p" for u p :: jsString
    proof -
      have "length (take (length p) u) = length p" using that by (simp add: startsWith_def)
      then show ?thesis by simp
    qed
    have l1: "2 \<le> length ?r1" using sw[OF s1] by simp
    have l3: "1 \<le> length ?r3" using sw[OF s3] by simp
    have "length str = length (takeWhile isWord str) + length ?r1"
      by (metis length_append takeWhile_dropWhile_id)
    moreover have "length ?r1 = 2 + length ?r2" using l1 by (simp add: length_drop)
    moreover have "length ?r2 = length (takeWhile (\<lambda>c. c \<noteq> 34) ?r2) + length ?r3"
      by (metis length_append takeWhile_dropWhile_id)
    ultimately have "m \<le> length str" using m l3 by linarith
    moreover have "0 < m" using m by linarith
    ultimately show "0 < m \<and> m \<le> length str" by blast
  qed
  have ex: "\<And>str j a v m. execAttr str = Some (j, a, v, m) \<Longrightarrow> 0 < m \<and> j + m \<le> length str"
  proof -
    fix str :: jsString and j a v m
    show "execAttr str = Some (j, a, v, m) \<Longrightarrow> 0 < m \<and> j + m \<le> length str"
    proof (induction str arbitrary: j)
      case Nil
      then show ?case by simp
    next
      case (Cons c cs)
      show ?case
      proof (cases "matchAttrBody (c # cs)")
        case (Some r)
        then show ?thesis using Cons.prems body[of "c # cs" a v m] by (cases r) auto
      next
        case None
        then obtain j' where "execAttr cs = Some (j', a, v, m)" "j = Suc j'"
          using Cons.prems by (auto split: option.splits)
        then show ?thesis using Cons.IH[of j'] by simp
      qed
    qed
  qed
  show ?thesis
    by (relation "measure (\<lambda>(as, lastIndex, attrStr). length as - lastIndex)") (auto dest!: ex)
qed

text \<open>
  The main loop of \<open>highlightPML\<close>. Each round of the \<open>while\<close> loop is recorded
  with the part of \<open>remaining\<close> it slices off and the spans it pushes; \<open>parts\<close> is the
  concatenation of what the rounds push. \<open>textMatch\<close> is \<open>^([^<]+)\<close>, the longest run
  of code units other than \<open><\<close>.
\<close>

record round =
  consumed :: jsString
  pushed :: "span list"

function mainLoop :: "jsString \<Rightarrow> round list" where
  "mainLoop remaining =
     (if remaining = [] then []
      else (case tagMatch remaining of
              Some m \<Rightarrow>
                \<lparr>consumed = take (length (full m)) remaining,
                 pushed = [Span ''text-stone-500'' (bracket m), Span ''text-pink-400'' (tagName m)] @
                          (if attrs m \<noteq> [] then attrLoop (attrs m) 0 (attrs m) else []) @
                          [Span ''text-stone-500'' (closeBracket m)]\<rparr>
                # mainLoop (drop (length (full m)) remaining)
            | None \<Rightarrow>
                (let textMatch1 = takeWhile (\<lambda>c. c \<noteq> 60) remaining
                 in if textMatch1 \<noteq> []
                    then \<lparr>consumed = take (length textMatch1) remaining,
                          pushed = [Span ''text-emerald-400'' textMatch1]\<rparr>
                         # mainLoop (drop (length textMatch1) remaining)
                    else \<lparr>consumed = take 1 remaining,
                          pushed = [Span ''text-stone-300'' (take 1 remaining)]\<rparr>
                         # mainLoop (drop 1 remaining))))"
  by pat_completeness auto
termination
proof (relation "measure length")
  show "wf (measure length)" by simp
next
  fix remaining :: jsString and m
  assume "remaining \<noteq> []" and t: "tagMatch remaining = Some m"
  have "full m \<noteq> []"
    using t by (auto simp: tagMatch_def Let_def split: if_splits)
  then show "(drop (length (full m)) remaining, remaining) \<in> measure length"
    using \<open>remaining \<noteq> []\<close> by simp
next
  fix remaining :: jsString and textMatch1
  assume "remaining \<noteq> []" "textMatch1 = takeWhile (\<lambda>c. c \<noteq> 60) remaining" "textMatch1 \<noteq> []"
  then show "(drop (length textMatch1) remaining, remaining) \<in> measure length"
    by simp
next
  fix remaining :: jsString
  assume "remaining \<noteq> []"
  then show "(drop 1 remaining, remaining) \<in> measure length" by simp
qed

definition highlightPML :: "jsString \<Rightarrow> span list" where
  "highlightPML txt = concat (map pushed (mainLoop txt))"

text \<open>The text a reader of the rendered line sees: the spans' texts one after another.\<close>

definition rendered :: "span list \<Rightarrow> jsString" where
  "rendered parts = concat (map spanText parts)"

section \<open>Invariants of the 3D animation\<close>

text \<open>
  What holds in every state the component reaches. The activation map has one entry
  per key, with values in \<open>(0, 1]\<close>. Every pending timer is the one a ref points to:
  a spread timeout is listed in \<open>spreadTimeoutsRef\<close> and carries a strength in
  \<open>(0, 1]\<close>, a decay interval is the one in \<open>decayIntervalRef\<close>, a pulse cleanup the
  one in \<open>pulseCleanupRef\<close>. Only the decay timer is an interval. Timer ids are
  below the next id, and an unmounted component has no pending timer.
\<close>

definition actsOk :: "(nat \<times> rat) list \<Rightarrow> bool" where
  "actsOk m = (distinct (map fst m) \<and> list_all (\<lambda>(k, v). 0 < v \<and> v \<le> 1) m)"

fun refOk :: "engram3d \<Rightarrow> cb3d \<Rightarrow> nat \<Rightarrow> bool" where
  "refOk s (Spread a st d) i = (0 < st \<and> st \<le> 1 \<and> i \<in> set (spreadTimeoutsRef s) \<and> decayIntervalRef s \<noteq> Some i)"
| "refOk s Decay i = (decayIntervalRef s = Some i)"
| "refOk s PulseCleanup i = (pulseCleanupRef s = Some i \<and> decayIntervalRef s \<noteq> Some i)"

definition timerOk :: "engram3d \<Rightarrow> cb3d timer \<Rightarrow> bool" where
  "timerOk s t = (tid t < nextId s \<and> refOk s (callback t) (tid t)
     \<and> every t = (if callback t = Decay then Some 80 else None))"

definition inv3d :: "engram3d \<Rightarrow> bool" where
  "inv3d s = (actsOk (activations s) \<and> list_all (timerOk s) (timers s)
     \<and> (\<forall>d. decayIntervalRef s = Some d \<longrightarrow> d < nextId s)
     \<and> (\<not> mounted s \<longrightarrow> timers s = []))"

text \<open>The other end of an edge, the neighbours a spread step visits (one per
  connected edge, in the order of \<open>edges\<close>), and the timeout \<open>spreadActivation\<close>
  registers at time \<open>t0\<close>.\<close>

definition neighborOf :: "nat \<Rightarrow> EngramEdge \<Rightarrow> nat" where
  "neighborOf sourceId e = (if source e = sourceId then target e else source e)"


definition spreadTimer :: "nat \<Rightarrow> nat \<Rightarrow> nat \<Rightarrow> rat \<Rightarrow> nat \<Rightarrow> cb3d timer" where
  "spreadTimer i t0 sourceId strength depth =
     \<lparr>tid = i, due = t0 + 350 * depth, every = None, callback = Spread sourceId strength depth\<rparr>"


section \<open>Invariants of the 2D animation\<close>

text \<open>
  In every state the diagram reaches, the six nodes are there in their order with an
  activation in \<open>[0, 1]\<close>, and the interval of the mount effect is pending exactly
  while the component is mounted.
\<close>

definition range2d :: "node2d list \<Rightarrow> bool" where
  "range2d ns = list_all (\<lambda>n. 0 \<le> active n \<and> active n \<le> 1) ns"

definition shape2d :: "node2d list \<Rightarrow> bool" where
  "shape2d ns = (range2d ns \<and> map id2d ns = map id2d initialNodes2d)"

definition inv2d :: "diagram2d \<Rightarrow> bool" where
  "inv2d s = (range2d (nodes2d s) \<and> map id2d (nodes2d s) = map id2d initialNodes2d
     \<and> interval2d s = Some 1
     \<and> timers2d s = (if mounted2d s then [\<lparr>tid = 1, due = now2d s + 100, every = Some 100, callback = Tick2d\<rparr>] else []))"

text \<open>No node of the diagram has a positive activation.\<close>

definition idle2d :: "node2d list \<Rightarrow> bool" where
  "idle2d ns = (\<not> list_ex (\<lambda>n. active n > 0) ns)"

section \<open>Properties of the tech-spec viewer\<close>

text \<open>
  C7. For each value of the selected tab, exactly one of the three panels is not
  hidden; it is the panel the selected tab controls and it renders that tab's
  viewer. The other two panels are hidden and render no child.
\<close>

theorem techspecs_exactly_one_panel:
  "visiblePanels activeTab =
     [\<lparr>panelId = panelOf activeTab, hidden = False, child = Some (viewerOf activeTab)\<rparr>]
   \<and> length (hiddenPanels activeTab) = 2
   \<and> map child (hiddenPanels activeTab) = [None, None]"
  by (cases activeTab) (simp_all add: visiblePanels_def hiddenPanels_def panels_def)

section \<open>Properties of the 3D animation\<close>

lemma foldl_preserves:
  "(\<And>s e. P s \<Longrightarrow> P (f s e)) \<Longrightarrow> P s \<Longrightarrow> P (foldl f s xs)"
  by (induction xs arbitrary: s) auto

lemma list_all_update: "list_all P m \<Longrightarrow> P (k, v) \<Longrightarrow> list_all P (AList.update k v m)"
  by (induction m) auto

lemma actsOk_update: "actsOk m \<Longrightarrow> 0 < v \<Longrightarrow> v \<le> 1 \<Longrightarrow> actsOk (AList.update k v m)"
  by (simp add: actsOk_def distinct_update list_all_update)

lemma actsOk_transferTo: "actsOk m \<Longrightarrow> 0 < v \<Longrightarrow> v \<le> 1 \<Longrightarrow> actsOk (transferTo k v m)"
  by (simp add: transferTo_def Let_def actsOk_update)

lemma actsOk_decayMap: "actsOk m \<Longrightarrow> actsOk (decayMap m)"
  unfolding actsOk_def decayMap_def
  by (auto simp: list_all_iff distinct_map_filter comp_def case_prod_unfold distinct_map inj_on_def intro!: distinct_filter)

lemma filter_eqI: "(\<And>t. P t = Q t) \<Longrightarrow> filter P ts = filter Q ts"
  by (induction ts) simp_all

lemma foldl_clearTimer: "foldl (\<lambda>ts i. clearTimer i ts) ts is = filter (\<lambda>t. tid t \<notin> set is) ts"
proof (induction "is" arbitrary: ts)
  case Nil
  then show ?case by simp
next
  case (Cons i "is")
  have "foldl (\<lambda>ts i. clearTimer i ts) ts (i # is) = filter (\<lambda>t. tid t \<notin> set is) (clearTimer i ts)"
    by (simp add: Cons.IH)
  also have "\<dots> = filter (\<lambda>t. tid t \<noteq> i \<and> tid t \<notin> set is) ts"
    by (simp add: clearTimer_def)
  also have "\<dots> = filter (\<lambda>t. tid t \<notin> set (i # is)) ts"
    by (rule filter_eqI) auto
  finally show ?case .
qed

lemma timers_cleanupTimers:
  "timers (cleanupTimers s) =
     filter (\<lambda>t. pulseCleanupRef s \<noteq> Some (tid t) \<and> tid t \<notin> set (spreadTimeoutsRef s)
                  \<and> decayIntervalRef s \<noteq> Some (tid t)) (timers s)"
proof -
  let ?t1 = "case decayIntervalRef s of Some i \<Rightarrow> clearTimer i (timers s) | None \<Rightarrow> timers s"
  let ?t2 = "foldl (\<lambda>ts i. clearTimer i ts) ?t1 (spreadTimeoutsRef s)"
  let ?t3 = "case pulseCleanupRef s of Some i \<Rightarrow> clearTimer i ?t2 | None \<Rightarrow> ?t2"
  have 0: "timers (cleanupTimers s) = ?t3"
    by (simp add: cleanupTimers_def Let_def split: option.splits)
  have 1: "?t1 = filter (\<lambda>t. decayIntervalRef s \<noteq> Some (tid t)) (timers s)"
    by (cases "decayIntervalRef s") (auto simp: clearTimer_def intro: filter_eqI)
  have 2: "?t2 = filter (\<lambda>t. tid t \<notin> set (spreadTimeoutsRef s) \<and> decayIntervalRef s \<noteq> Some (tid t)) (timers s)"
    unfolding foldl_clearTimer 1 by (simp, rule filter_eqI, auto)
  have 3: "?t3 = filter (\<lambda>t. pulseCleanupRef s \<noteq> Some (tid t)) ?t2"
    by (cases "pulseCleanupRef s") (auto simp: clearTimer_def intro: filter_eqI)
  have "timers (cleanupTimers s) = filter (\<lambda>t. pulseCleanupRef s \<noteq> Some (tid t)) ?t2"
    using 0 3 by simp
  also have "\<dots> = filter (\<lambda>t. pulseCleanupRef s \<noteq> Some (tid t))
       (filter (\<lambda>t. tid t \<notin> set (spreadTimeoutsRef s) \<and> decayIntervalRef s \<noteq> Some (tid t)) (timers s))"
    by (simp only: 2)
  also have "\<dots> = filter (\<lambda>t. pulseCleanupRef s \<noteq> Some (tid t) \<and> tid t \<notin> set (spreadTimeoutsRef s)
                  \<and> decayIntervalRef s \<noteq> Some (tid t)) (timers s)"
    by (simp, rule filter_eqI, auto)
  finally show ?thesis .
qed
lemma cleanupTimers_fields [simp]:
  "decayIntervalRef (cleanupTimers s) = None" "spreadTimeoutsRef (cleanupTimers s) = []"
  "pulseCleanupRef (cleanupTimers s) = None" "activations (cleanupTimers s) = activations s"
  "nextId (cleanupTimers s) = nextId s" "now (cleanupTimers s) = now s"
  "mounted (cleanupTimers s) = mounted s" "pulseWaves (cleanupTimers s) = pulseWaves s"
  "clockRef (cleanupTimers s) = clockRef s"
  by (simp_all add: cleanupTimers_def Let_def split: option.splits)

lemma cleanupTimers_empty:
  assumes "list_all (timerOk s) (timers s)"
  shows "timers (cleanupTimers s) = []"
proof -
  have "\<And>t. t \<in> set (timers s) \<Longrightarrow>
          \<not> (pulseCleanupRef s \<noteq> Some (tid t) \<and> tid t \<notin> set (spreadTimeoutsRef s) \<and> decayIntervalRef s \<noteq> Some (tid t))"
  proof -
    fix t assume "t \<in> set (timers s)"
    then have "refOk s (callback t) (tid t)" using assms by (simp add: list_all_iff timerOk_def)
    then show "\<not> (pulseCleanupRef s \<noteq> Some (tid t) \<and> tid t \<notin> set (spreadTimeoutsRef s) \<and> decayIntervalRef s \<noteq> Some (tid t))"
      by (cases "callback t") auto
  qed
  then show ?thesis by (simp add: timers_cleanupTimers filter_empty_conv)
qed

lemma inv3d_cleanupTimers: "inv3d s \<Longrightarrow> inv3d (cleanupTimers s)"
  by (simp add: inv3d_def cleanupTimers_empty)


lemma timerOk_mono:
  assumes "timerOk s t" "nextId s \<le> nextId s'" "set (spreadTimeoutsRef s) \<subseteq> set (spreadTimeoutsRef s')"
    "decayIntervalRef s' = decayIntervalRef s" "pulseCleanupRef s' = pulseCleanupRef s"
  shows "timerOk s' t"
  using assms unfolding timerOk_def by (cases "callback t") auto

lemma list_all_timerOk_mono:
  assumes "list_all (timerOk s) ts" "nextId s \<le> nextId s'" "set (spreadTimeoutsRef s) \<subseteq> set (spreadTimeoutsRef s')"
    "decayIntervalRef s' = decayIntervalRef s" "pulseCleanupRef s' = pulseCleanupRef s"
  shows "list_all (timerOk s') ts"
  using assms by (auto simp: list_all_iff intro: timerOk_mono)

lemma timerOk_due [simp]: "timerOk s (u\<lparr>due := x\<rparr>) = timerOk s u"
  by (simp add: timerOk_def)

lemma list_all_afterFire: "list_all (timerOk s) ts \<Longrightarrow> list_all (timerOk s) (afterFire t ts)"
  by (auto simp: afterFire_def clearTimer_def list_all_iff split: option.splits)

lemma refOk_upd [simp]:
  "refOk (s\<lparr>activations := m\<rparr>) c j = refOk s c j"
  "refOk (s\<lparr>pulseWaves := w\<rparr>) c j = refOk s c j"
  "refOk (s\<lparr>clockRef := r\<rparr>) c j = refOk s c j"
  "refOk (s\<lparr>now := n\<rparr>) c j = refOk s c j"
  "refOk (s\<lparr>timers := ts\<rparr>) c j = refOk s c j"
  "refOk (s\<lparr>mounted := b\<rparr>) c j = refOk s c j"
  by (cases c; simp)+

lemma timerOk_upd [simp]:
  "timerOk (s\<lparr>activations := m\<rparr>) = timerOk s"
  "timerOk (s\<lparr>pulseWaves := w\<rparr>) = timerOk s"
  "timerOk (s\<lparr>clockRef := r\<rparr>) = timerOk s"
  "timerOk (s\<lparr>now := n\<rparr>) = timerOk s"
  "timerOk (s\<lparr>timers := ts\<rparr>) = timerOk s"
  "timerOk (s\<lparr>mounted := b\<rparr>) = timerOk s"
  by (rule ext, simp add: timerOk_def)+

lemma inv3d_activations: "inv3d s \<Longrightarrow> actsOk m \<Longrightarrow> inv3d (s\<lparr>activations := m\<rparr>)"
  unfolding inv3d_def by simp

lemma inv3d_pulseWaves [simp]: "inv3d (s\<lparr>pulseWaves := w\<rparr>) = inv3d s"
  unfolding inv3d_def by simp

lemma inv3d_clockRef [simp]: "inv3d (s\<lparr>clockRef := w\<rparr>) = inv3d s"
  unfolding inv3d_def by simp

lemma spreadActivation_fields [simp]:
  "activations (spreadActivation a st d s) = activations s"
  "mounted (spreadActivation a st d s) = mounted s"
  "now (spreadActivation a st d s) = now s"
  "decayIntervalRef (spreadActivation a st d s) = decayIntervalRef s"
  "pulseCleanupRef (spreadActivation a st d s) = pulseCleanupRef s"
  "pulseWaves (spreadActivation a st d s) = pulseWaves s"
  "clockRef (spreadActivation a st d s) = clockRef s"
  by (simp_all add: spreadActivation_def setTimer_def)

lemma inv3d_spreadActivation:
  assumes i: "inv3d s" and m: "mounted s" and p: "0 < st" "st \<le> 1"
  shows "inv3d (spreadActivation a st d s)"
proof (cases "d > 3 \<or> st < 0.1")
  case True
  then show ?thesis using i by (simp add: spreadActivation_def)
next
  case False
  let ?new = "\<lparr>tid = nextId s, due = now s + 350 * d, every = None, callback = Spread a st d\<rparr>"
  let ?s' = "s\<lparr>timers := timers s @ [?new], nextId := Suc (nextId s),
               spreadTimeoutsRef := spreadTimeoutsRef s @ [nextId s]\<rparr>"
  have eq: "spreadActivation a st d s = ?s'"
    using False by (simp add: spreadActivation_def setTimer_def)
  have old: "list_all (timerOk ?s') (timers s)"
    by (rule list_all_timerOk_mono[where s = s]) (use i in \<open>auto simp: inv3d_def\<close>)
  have new: "timerOk ?s' ?new"
    using i p by (auto simp: timerOk_def inv3d_def split: option.splits)
  show ?thesis
    unfolding eq using i m old new by (auto simp: inv3d_def split: option.splits)
qed

lemma inv3d_spreadEdge:
  assumes i: "inv3d s" and m: "mounted s" and p: "0 < st" and q: "st \<le> 1"
  shows "inv3d (spreadEdge a st d s e) \<and> mounted (spreadEdge a st d s e)"
proof -
  let ?n = "if source e = a then target e else source e"
  let ?s1 = "s\<lparr>activations := transferTo ?n (st * 0.65) (activations s)\<rparr>"
  let ?s2 = "case find (\<lambda>n. nid n = ?n) nodes of
                  Some neighborNode \<Rightarrow>
                    if st * 0.65 > 0.2
                    then ?s1\<lparr>pulseWaves := pulseWaves ?s1 @ [(position neighborNode, clockRef ?s1)]\<rparr>
                    else ?s1
                | None \<Rightarrow> ?s1"
  have t: "0 < st * 0.65" "st * 0.65 \<le> 1" using p q by auto
  have 1: "inv3d ?s1"
    using i t by (intro inv3d_activations actsOk_transferTo) (simp_all add: inv3d_def)
  have 2: "inv3d ?s2" using 1 by (cases "find (\<lambda>n. nid n = ?n) nodes") simp_all
  have 3: "mounted ?s2" using m by (cases "find (\<lambda>n. nid n = ?n) nodes") simp_all
  have eq: "spreadEdge a st d s e = spreadActivation ?n (st * 0.65) (d + 1) ?s2"
    unfolding spreadEdge_def Let_def ..
  show ?thesis
    unfolding eq using inv3d_spreadActivation[OF 2 3 t] 3 by simp
qed

lemma inv3d_runSpread:
  "inv3d s \<Longrightarrow> mounted s \<Longrightarrow> 0 < st \<Longrightarrow> st \<le> 1 \<Longrightarrow> inv3d (runSpread a st d s)"
  unfolding runSpread_def
  using foldl_preserves[where P = "\<lambda>s. inv3d s \<and> mounted s" and f = "spreadEdge a st d"]
  by (simp add: inv3d_spreadEdge)

lemma inv3d_runDecay: assumes i: "inv3d s" shows "inv3d (runDecay s)"
proof (cases "decayMap (activations s) = []")
  case False
  then have "runDecay s = s\<lparr>activations := decayMap (activations s)\<rparr>"
    by (simp add: runDecay_def Let_def)
  then show ?thesis using i by (simp add: inv3d_activations actsOk_decayMap inv3d_def)
next
  case True
  show ?thesis
  proof (cases "decayIntervalRef s")
    case None
    then have "runDecay s = s\<lparr>activations := []\<rparr>"
      using True by (simp add: runDecay_def Let_def)
    then show ?thesis using i by (simp add: inv3d_activations actsOk_def)
  next
    case (Some c)
    let ?s' = "s\<lparr>timers := clearTimer c (timers s), decayIntervalRef := None, activations := []\<rparr>"
    have eq: "runDecay s = ?s'"
      using True Some by (simp add: runDecay_def Let_def)
    have "timerOk ?s' t" if "t \<in> set (timers s)" "tid t \<noteq> c" for t
    proof -
      have "timerOk s t" using i that by (simp add: inv3d_def list_all_iff)
      then show ?thesis using that Some unfolding timerOk_def by (cases "callback t") auto
    qed
    then have "list_all (timerOk ?s') (clearTimer c (timers s))"
      by (auto simp: list_all_iff clearTimer_def)
    then show ?thesis unfolding eq using i by (auto simp: inv3d_def actsOk_def clearTimer_def)
  qed
qed

lemma find_in_set: "find P xs = Some x \<Longrightarrow> x \<in> set xs \<and> P x"
  by (auto simp: find_Some_iff)

lemma inv3d_fire3d: assumes i: "inv3d s" shows "inv3d (fire3d j s)"
proof (cases "find (\<lambda>t. tid t = j) (timers s)")
  case None
  then show ?thesis using i by (simp add: fire3d_def)
next
  case (Some t)
  let ?s1 = "s\<lparr>now := max (now s) (due t), timers := afterFire t (timers s)\<rparr>"
  have mem: "t \<in> set (timers s)" using find_in_set[OF Some] by simp
  then have ok: "timerOk s t" and m: "mounted s" using i by (auto simp: inv3d_def list_all_iff)
  have "list_all (timerOk ?s1) (afterFire t (timers s))"
    using i by (simp add: inv3d_def list_all_afterFire)
  then have 1: "inv3d ?s1" using i m by (simp add: inv3d_def)
  have m1: "mounted ?s1" using m by simp
  have "inv3d (runCallback (callback t) ?s1)"
  proof (cases "callback t")
    case (Spread a st d)
    then have "0 < st" "st \<le> 1" using ok by (simp_all add: timerOk_def)
    then show ?thesis using Spread 1 m1 by (simp add: inv3d_runSpread)
  next
    case Decay then show ?thesis using 1 by (simp add: inv3d_runDecay)
  next
    case PulseCleanup then show ?thesis using 1 by simp
  qed
  then show ?thesis using Some by (simp add: fire3d_def)
qed

lemma handleActivate_known:
  assumes f: "find (\<lambda>n. nid n = i) nodes = Some node" and e: "timers (cleanupTimers s) = []"
  shows "handleActivate i s =
     s\<lparr>pulseWaves := pulseWaves s @ [(position node, clockRef s)],
       activations := AList.update i 1 (activations s),
       spreadTimeoutsRef := [nextId s],
       timers := [\<lparr>tid = nextId s, due = now s + 350, every = None, callback = Spread i 1 1\<rparr>,
                  \<lparr>tid = nextId s + 1, due = now s + 80, every = Some 80, callback = Decay\<rparr>,
                  \<lparr>tid = nextId s + 2, due = now s + 4000, every = None, callback = PulseCleanup\<rparr>],
       nextId := nextId s + 3,
       decayIntervalRef := Some (nextId s + 1),
       pulseCleanupRef := Some (nextId s + 2)\<rparr>"
proof -
  have c: "cleanupTimers s = s\<lparr>timers := [], decayIntervalRef := None, spreadTimeoutsRef := [], pulseCleanupRef := None\<rparr>"
    using e by (intro engram3d.equality) simp_all
  show ?thesis
    unfolding handleActivate_def f option.case Let_def c
    by (simp add: spreadActivation_def setTimer_def)
qed

lemma inv3d_handleActivate: assumes i: "inv3d s" and m: "mounted s" shows "inv3d (handleActivate j s)"
proof (cases "find (\<lambda>n. nid n = j) nodes")
  case None
  then show ?thesis using i by (simp add: handleActivate_def)
next
  case (Some node)
  have e: "timers (cleanupTimers s) = []" using i by (simp add: inv3d_def cleanupTimers_empty)
  show ?thesis
    unfolding handleActivate_known[OF Some e]
    using i m by (simp add: inv3d_def actsOk_update timerOk_def)
qed

lemma inv3d_mounted_False: "inv3d s \<Longrightarrow> inv3d ((cleanupTimers s)\<lparr>mounted := False\<rparr>)"
  using inv3d_cleanupTimers[of s] by (simp add: inv3d_def cleanupTimers_empty)

lemma inv3d_step3d: "inv3d s \<Longrightarrow> inv3d (step3d s e)"
  by (cases e) (simp_all add: inv3d_handleActivate inv3d_fire3d inv3d_mounted_False)

lemma inv3d_init3d: "inv3d init3d"
  by (simp add: inv3d_def init3d_def actsOk_def)

lemma inv3d_run3d: "inv3d (run3d evs)"
  unfolding run3d_def by (rule foldl_preserves[where P = inv3d]) (simp_all add: inv3d_step3d inv3d_init3d)


lemma activationOf_update:
  "activationOf (AList.update k v m) j = (if j = k then v else activationOf m j)"
  by (simp add: activationOf_def update_conv')

lemma activationOf_transferTo:
  "activationOf (transferTo n t m) k = (if k = n then max (activationOf m n) t else activationOf m k)"
  by (auto simp: transferTo_def Let_def activationOf_update max_def)

lemma spreadEdge_eq:
  "spreadEdge a st d s e =
     spreadActivation (neighborOf a e) (st * 0.65) (d + 1)
       (case find (\<lambda>n. nid n = neighborOf a e) nodes of
          Some neighborNode \<Rightarrow>
            if st * 0.65 > 0.2
            then s\<lparr>activations := transferTo (neighborOf a e) (st * 0.65) (activations s),
                   pulseWaves := pulseWaves s @ [(position neighborNode, clockRef s)]\<rparr>
            else s\<lparr>activations := transferTo (neighborOf a e) (st * 0.65) (activations s)\<rparr>
        | None \<Rightarrow> s\<lparr>activations := transferTo (neighborOf a e) (st * 0.65) (activations s)\<rparr>)"
  unfolding spreadEdge_def Let_def neighborOf_def
  by (cases "find (\<lambda>n. nid n = (if source e = a then target e else source e)) nodes") simp_all

lemma spreadActivation_timers:
  "timers (spreadActivation a st d s) =
     timers s @ (if d > 3 \<or> st < 0.1 then [] else [spreadTimer (nextId s) (now s) a st d])"
  "nextId (spreadActivation a st d s) = (if d > 3 \<or> st < 0.1 then nextId s else Suc (nextId s))"
  "spreadTimeoutsRef (spreadActivation a st d s) =
     spreadTimeoutsRef s @ (if d > 3 \<or> st < 0.1 then [] else [nextId s])"
  by (simp_all add: spreadActivation_def setTimer_def spreadTimer_def)

lemma spreadEdge_fields:
  "timers (spreadEdge a st d s e) =
     timers s @ (if d + 1 > 3 \<or> st * 0.65 < 0.1 then []
                 else [spreadTimer (nextId s) (now s) (neighborOf a e) (st * 0.65) (d + 1)])"
  "nextId (spreadEdge a st d s e) = (if d + 1 > 3 \<or> st * 0.65 < 0.1 then nextId s else Suc (nextId s))"
  "now (spreadEdge a st d s e) = now s"
  "activations (spreadEdge a st d s e) = transferTo (neighborOf a e) (st * 0.65) (activations s)"
  unfolding spreadEdge_eq
  by (cases "find (\<lambda>n. nid n = neighborOf a e) nodes"; simp add: spreadActivation_timers)+



lemma decayMap_map_of:
  "distinct (map fst m) \<Longrightarrow>
   map_of (decayMap m) k =
     (case map_of m k of None \<Rightarrow> None
      | Some v \<Rightarrow> if v * 0.96 > 0.05 then Some (v * 0.96) else None)"
proof (induction m)
  case Nil
  then show ?case by (simp add: decayMap_def)
next
  case (Cons p m)
  obtain a b where p: "p = (a, b)" by (cases p)
  have IH: "map_of (decayMap m) k =
     (case map_of m k of None \<Rightarrow> None | Some v \<Rightarrow> if v * 0.96 > 0.05 then Some (v * 0.96) else None)"
    using Cons by simp
  have d: "decayMap (p # m) = (if b * 0.96 > 0.05 then (a, b * 0.96) # decayMap m else decayMap m)"
    by (simp add: decayMap_def p)
  have n: "a = k \<Longrightarrow> map_of m k = None"
    using Cons.prems p by (simp add: map_of_eq_None_iff)
  show ?case
    unfolding d using IH n by (auto simp: p)
qed

lemma reachable_positive:
  "map_of (activations (run3d evs)) k = Some v \<Longrightarrow> 0 < v \<and> v \<le> 1"
  using inv3d_run3d[of evs]
  by (auto simp: inv3d_def actsOk_def list_all_iff dest!: map_of_SomeD)

lemma fire3d_Decay:
  assumes i: "inv3d s" and t: "t \<in> set (timers s)" and c: "callback t = Decay"
  shows "\<exists>u. find (\<lambda>u. tid u = tid t) (timers s) = Some u \<and> tid u = tid t \<and> callback u = Decay
            \<and> every u = Some 80 \<and> decayIntervalRef s = Some (tid t)"
proof -
  have ok: "timerOk s t" using i t by (simp add: inv3d_def list_all_iff)
  then have r: "decayIntervalRef s = Some (tid t)" using c by (simp add: timerOk_def)
  obtain u where u: "find (\<lambda>u. tid u = tid t) (timers s) = Some u"
    using t by (cases "find (\<lambda>u. tid u = tid t) (timers s)") (auto simp: find_None_iff)
  have um: "u \<in> set (timers s)" "tid u = tid t" using find_in_set[OF u] by simp_all
  then have uo: "timerOk s u" using i by (simp add: inv3d_def list_all_iff)
  have "callback u = Decay"
    using uo r um(2) unfolding timerOk_def by (cases "callback u") auto
  then show ?thesis using u um uo r by (auto simp: timerOk_def)
qed

lemma fire3d_decay_tick:
  assumes i: "inv3d s" and t: "t \<in> set (timers s)" and c: "callback t = Decay"
  shows "activations (fire3d (tid t) s) = decayMap (activations s)"
    and "decayMap (activations s) = [] \<Longrightarrow>
           decayIntervalRef (fire3d (tid t) s) = None
           \<and> list_all (\<lambda>u. callback u \<noteq> Decay) (timers (fire3d (tid t) s))"
    and "decayMap (activations s) \<noteq> [] \<Longrightarrow>
           decayIntervalRef (fire3d (tid t) s) = Some (tid t)
           \<and> list_ex (\<lambda>u. tid u = tid t \<and> callback u = Decay) (timers (fire3d (tid t) s))"
proof -
  obtain u where u: "find (\<lambda>u. tid u = tid t) (timers s) = Some u" "tid u = tid t" "callback u = Decay"
     "every u = Some 80" "decayIntervalRef s = Some (tid t)"
    using fire3d_Decay[OF assms] by blast
  let ?ts = "map (\<lambda>w. if tid w = tid t then w\<lparr>due := due w + 80\<rparr> else w) (timers s)"
  let ?s1 = "s\<lparr>now := max (now s) (due u), timers := ?ts\<rparr>"
  have f: "fire3d (tid t) s = runDecay ?s1"
    using u by (simp add: fire3d_def afterFire_def)
  show "activations (fire3d (tid t) s) = decayMap (activations s)"
    unfolding f by (simp add: runDecay_def Let_def)
  {
    assume e: "decayMap (activations s) = []"
    have "\<And>w. w \<in> set (timers s) \<Longrightarrow> callback w = Decay \<Longrightarrow> tid w = tid t"
    proof -
      fix w assume "w \<in> set (timers s)" "callback w = Decay"
      then have "timerOk s w" "callback w = Decay" using i by (simp_all add: inv3d_def list_all_iff)
      then show "tid w = tid t" using u(5) by (simp add: timerOk_def)
    qed
    then show "decayIntervalRef (fire3d (tid t) s) = None
           \<and> list_all (\<lambda>u. callback u \<noteq> Decay) (timers (fire3d (tid t) s))"
      unfolding f using e u(5) by (auto simp: runDecay_def Let_def clearTimer_def list_all_iff)
  }
  {
    assume e: "decayMap (activations s) \<noteq> []"
    have "t\<lparr>due := due t + 80\<rparr> \<in> set ?ts" using t by force
    then have "list_ex (\<lambda>u. tid u = tid t \<and> callback u = Decay) ?ts"
      unfolding list_ex_iff using c by (intro bexI[of _ "t\<lparr>due := due t + 80\<rparr>"]) simp_all
    then show "decayIntervalRef (fire3d (tid t) s) = Some (tid t)
           \<and> list_ex (\<lambda>u. tid u = tid t \<and> callback u = Decay) (timers (fire3d (tid t) s))"
      unfolding f using e u(5) by (simp add: runDecay_def Let_def)
  }
qed

lemma activationOf_range:
  "0 \<le> activationOf (activations (run3d evs)) k \<and> activationOf (activations (run3d evs)) k \<le> 1"
  using reachable_positive[of evs k]
  by (cases "map_of (activations (run3d evs)) k") (auto simp: activationOf_def)

section \<open>Properties of the 2D animation\<close>

lemma findIndex_Some:
  "findIndex P xs = Some i \<Longrightarrow> i < length xs \<and> P (xs ! i) \<and> find P xs = Some (xs ! i)"
proof (induction xs arbitrary: i)
  case Nil
  then show ?case by simp
next
  case (Cons a as)
  then show ?case by (auto split: if_splits option.splits)
qed

lemma findIndex_None: "findIndex P xs = None \<longleftrightarrow> (\<forall>x\<in>set xs. \<not> P x)"
  by (induction xs) (auto split: option.splits)

lemma find_None_activeOf: "i \<notin> id2d ` set ns \<Longrightarrow> activeOf ns i = 0"
  by (auto simp: activeOf_def find_None_iff split: option.splits dest: find_Some_iff[THEN iffD1])

lemma activeOf_Cons:
  "activeOf (n # ns) k = (if id2d n = k then active n else activeOf ns k)"
  by (simp add: activeOf_def)

lemma activeOf_activateNode:
  "activeOf (activateNode i ns) k = (if k = i \<and> i \<in> id2d ` set ns then 1 else activeOf ns k)"
  by (induction ns) (auto simp: activateNode_def activeOf_Cons activeOf_def)

lemma activeOf_decay:
  "activeOf (map decayNode ns) k =
     (if activeOf ns k > 0 then max 0 (activeOf ns k - 0.05) else activeOf ns k)"
  by (induction ns) (auto simp: activeOf_Cons decayNode_def activeOf_def)

lemma activeOf_list_update:
  "findIndex (\<lambda>n. id2d n = t) ns = Some i \<Longrightarrow>
   activeOf (ns[i := (ns ! i)\<lparr>active := v\<rparr>]) k = (if k = t then v else activeOf ns k)"
proof (induction ns arbitrary: i)
  case Nil
  then show ?case by simp
next
  case (Cons a as)
  show ?case
  proof (cases "id2d a = t")
    case True
    then have "i = 0" using Cons.prems by simp
    then show ?thesis using True by (simp add: activeOf_Cons)
  next
    case False
    then obtain j where j: "findIndex (\<lambda>n. id2d n = t) as = Some j" "i = Suc j"
      using Cons.prems by (auto split: option.splits)
    show ?thesis using Cons.IH[OF j(1)] j(2) False by (auto simp: activeOf_Cons)
  qed
qed

lemma activeOf_find: "find (\<lambda>n. id2d n = i) ns = Some n \<Longrightarrow> activeOf ns i = active n"
  by (simp add: activeOf_def)

lemma spreadEdge2d_activeOf:
  assumes t: "t2d e \<in> id2d ` set ns"
  shows "activeOf (fst (spreadEdge2d (ns, ch) e)) k =
     (if k = t2d e \<and> activeOf ns (s2d e) > 0.2 \<and> activeOf ns (t2d e) < activeOf ns (s2d e)
      then min 1 (activeOf ns (t2d e) + activeOf ns (s2d e) * 0.1)
      else activeOf ns k)"
proof -
  obtain i where i: "findIndex (\<lambda>n. id2d n = t2d e) ns = Some i"
    using t findIndex_None[of "\<lambda>n. id2d n = t2d e" ns] by (cases "findIndex (\<lambda>n. id2d n = t2d e) ns") auto
  have tg: "activeOf ns (t2d e) = active (ns ! i)"
    using findIndex_Some[OF i] by (simp add: activeOf_def)
  show ?thesis
  proof (cases "find (\<lambda>n. id2d n = s2d e) ns")
    case None
    then have "activeOf ns (s2d e) = 0" by (simp add: activeOf_def)
    then show ?thesis using None by (simp add: spreadEdge2d_def)
  next
    case (Some src)
    have sa: "activeOf ns (s2d e) = active src" using Some by (simp add: activeOf_def)
    show ?thesis
      using Some i by (simp add: spreadEdge2d_def Let_def sa tg activeOf_list_update[OF i])
  qed
qed


lemma map_id2d_activateNode: "map id2d (activateNode i ns) = map id2d ns"
  by (induction ns) (simp_all add: activateNode_def)

lemma map_id2d_decay: "map id2d (map decayNode ns) = map id2d ns"
  by (induction ns) (simp_all add: decayNode_def)

lemma shape2d_activateNode: "shape2d ns \<Longrightarrow> shape2d (activateNode i ns)"
  unfolding shape2d_def map_id2d_activateNode
  by (auto simp: range2d_def activateNode_def list_all_iff)

lemma shape2d_decay: "shape2d ns \<Longrightarrow> shape2d (map decayNode ns)"
  unfolding shape2d_def map_id2d_decay
  by (auto simp: range2d_def decayNode_def list_all_iff)

lemma map_id2d_update: "i < length ns \<Longrightarrow> map id2d (ns[i := (ns ! i)\<lparr>active := v\<rparr>]) = map id2d ns"
  by (simp add: map_update list_update_same_conv)

lemma shape2d_spreadEdge2d:
  assumes "shape2d (fst st)"
  shows "shape2d (fst (spreadEdge2d st e))"
proof -
  obtain ns ch where st: "st = (ns, ch)" by (cases st)
  have r: "range2d ns" and m: "map id2d ns = map id2d initialNodes2d"
    using assms st by (simp_all add: shape2d_def)
  show ?thesis
  proof (cases "find (\<lambda>n. id2d n = s2d e) ns")
    case None
    then show ?thesis using assms st by (simp add: spreadEdge2d_def)
  next
    case (Some src)
    note S = Some
    show ?thesis
    proof (cases "findIndex (\<lambda>n. id2d n = t2d e) ns")
      case None
      then show ?thesis using assms st S by (simp add: spreadEdge2d_def)
    next
      case (Some i)
      have i: "i < length ns" using findIndex_Some[OF Some] by simp
      have "src \<in> set ns" using S by (auto simp: find_Some_iff)
      then have sr: "0 \<le> active src" "active src \<le> 1" using r by (auto simp: range2d_def list_all_iff)
      have tr: "0 \<le> active (ns ! i)" using r i by (auto simp: range2d_def list_all_iff)
      let ?v = "min 1 (active (ns ! i) + active src * 0.1)"
      have v: "0 \<le> ?v" "?v \<le> 1" using sr tr by auto
      have "range2d (ns[i := (ns ! i)\<lparr>active := ?v\<rparr>])"
        using r v i unfolding range2d_def list_all_iff
        by (auto dest!: set_update_subset_insert[THEN subsetD])
      then have "shape2d (ns[i := (ns ! i)\<lparr>active := ?v\<rparr>])"
        using m i by (simp add: shape2d_def map_id2d_update)
      then show ?thesis
        using assms st S Some by (simp add: spreadEdge2d_def Let_def)
    qed
  qed
qed

lemma shape2d_tick2d: assumes "shape2d ns" shows "shape2d (tick2d ns)"
proof -
  let ?d = "(map decayNode ns, list_ex (\<lambda>n. active n > 0) ns)"
  have "shape2d (fst (foldl spreadEdge2d ?d edges2d))"
    by (rule foldl_preserves[where P = "\<lambda>st. shape2d (fst st)"])
       (simp_all add: shape2d_spreadEdge2d shape2d_decay assms)
  then show ?thesis
    using assms by (simp add: tick2d_def Let_def case_prod_unfold)
qed

lemma inv2d_step2d: assumes "inv2d s" shows "inv2d (step2d s e)"
proof (cases e)
  case (Click2 i)
  then show ?thesis
    using assms shape2d_activateNode[of "nodes2d s" i] by (simp add: inv2d_def shape2d_def)
next
  case (Fire2 i)
  show ?thesis
  proof (cases "mounted2d s \<and> i = 1")
    case True
    then show ?thesis
      using assms Fire2 shape2d_tick2d[of "nodes2d s"]
      by (simp add: inv2d_def shape2d_def fire2d_def afterFire_def)
  next
    case False
    then have "fire2d i s = s" using assms by (auto simp: inv2d_def fire2d_def)
    then show ?thesis using assms Fire2 by simp
  qed
next
  case Unmount2
  then show ?thesis using assms by (simp add: inv2d_def unmount2d_def clearTimer_def)
qed

lemma inv2d_run2d: "inv2d (run2d evs)"
  unfolding run2d_def
  by (rule foldl_preserves[where P = inv2d])
     (simp_all add: inv2d_step2d, simp add: inv2d_def init2d_def range2d_def initialNodes2d_def)

lemma map_id2d_spreadEdge2d: "map id2d (fst (spreadEdge2d st e)) = map id2d (fst st)"
proof -
  obtain ns ch where st: "st = (ns, ch)" by (cases st)
  show ?thesis
  proof (cases "findIndex (\<lambda>n. id2d n = t2d e) ns")
    case None
    then show ?thesis by (simp add: st spreadEdge2d_def split: option.splits)
  next
    case (Some i)
    have "i < length ns" using findIndex_Some[OF Some] by simp
    then show ?thesis
      using Some by (simp add: st spreadEdge2d_def Let_def map_id2d_update split: option.splits)
  qed
qed

lemma map_id2d_tick2d: "map id2d (tick2d ns) = map id2d ns"
proof -
  have "map id2d (fst (foldl spreadEdge2d st es)) = map id2d (fst st)" for st es
    by (induction es arbitrary: st) (simp_all add: map_id2d_spreadEdge2d)
  then have "map id2d (fst (foldl spreadEdge2d (map decayNode ns, list_ex (\<lambda>n. active n > 0) ns) edges2d))
      = map id2d (map decayNode ns)"
    by simp
  also have "\<dots> = map id2d ns" by (rule map_id2d_decay)
  finally show ?thesis
    by (simp only: tick2d_def Let_def case_prod_unfold split: if_splits) simp
qed

section \<open>Claims about the activation-diffusion animations\<close>

text \<open>
  C1 (as amended). In the 3D animation, clicking a node of the graph sets its
  activation to 1; every tick of the decay interval replaces the activation map by
  \<open>decayMap\<close>: each stored activation \<open>v\<close> becomes \<open>v * 0.96\<close>, which is strictly
  smaller because stored activations are positive, and the entry is dropped unless
  the product is above \<open>0.05\<close>. In the 2D diagram, clicking a node sets its \<open>active\<close>
  to 1; the decay loop of a tick lowers every positive activation by \<open>0.05\<close>, not
  below 0, which is strictly smaller; and a tick keeps all six nodes in the list.
  The 2D decay is a subtraction, not a product, there is no active set, and the
  spread loop of the same tick can raise an activation above its value before the
  tick (the counterexample below).
\<close>

theorem click_and_decay:
  "(find (\<lambda>n. nid n = i) nodes \<noteq> None \<longrightarrow> activationOf (activations (handleActivate i s)) i = 1)
   \<and> (\<forall>t\<in>set (timers (run3d evs)). callback t = Decay \<longrightarrow>
          activations (fire3d (tid t) (run3d evs)) = decayMap (activations (run3d evs)))
   \<and> map_of (decayMap (activations (run3d evs))) k =
        (case map_of (activations (run3d evs)) k of
           None \<Rightarrow> None
         | Some v \<Rightarrow> if v * 0.96 > 0.05 then Some (v * 0.96) else None)
   \<and> (\<forall>v. map_of (activations (run3d evs)) k = Some v \<longrightarrow> 0 < v \<and> v * 0.96 < v)
   \<and> (j \<in> id2d ` set ns \<longrightarrow> activeOf (activateNode j ns) j = 1)
   \<and> activeOf (map decayNode ns) k =
        (if activeOf ns k > 0 then max 0 (activeOf ns k - 0.05) else activeOf ns k)
   \<and> (activeOf ns k > 0 \<longrightarrow> activeOf (map decayNode ns) k < activeOf ns k)
   \<and> map id2d (tick2d ns) = map id2d ns"
proof -
  have a: "find (\<lambda>n. nid n = i) nodes \<noteq> None \<longrightarrow> activationOf (activations (handleActivate i s)) i = 1"
    by (auto simp: handleActivate_def Let_def setTimer_def activationOf_update split: prod.splits)
  have b: "\<forall>t\<in>set (timers (run3d evs)). callback t = Decay \<longrightarrow>
          activations (fire3d (tid t) (run3d evs)) = decayMap (activations (run3d evs))"
    using fire3d_decay_tick(1)[OF inv3d_run3d] by blast
  have c: "map_of (decayMap (activations (run3d evs))) k =
        (case map_of (activations (run3d evs)) k of
           None \<Rightarrow> None
         | Some v \<Rightarrow> if v * 0.96 > 0.05 then Some (v * 0.96) else None)"
    using inv3d_run3d[of evs] by (intro decayMap_map_of) (simp add: inv3d_def actsOk_def)
  have d: "\<forall>v. map_of (activations (run3d evs)) k = Some v \<longrightarrow> 0 < v \<and> v * 0.96 < v"
    using reachable_positive[of evs k] by auto
  have e: "j \<in> id2d ` set ns \<longrightarrow> activeOf (activateNode j ns) j = 1"
    by (simp add: activeOf_activateNode)
  have f: "activeOf ns k > 0 \<longrightarrow> activeOf (map decayNode ns) k < activeOf ns k"
    by (auto simp: activeOf_decay)
  show ?thesis
    using a b c d e f activeOf_decay[of ns k] map_id2d_tick2d[of ns] by blast
qed


text \<open>The theorem at the clicked query node: one decay tick takes 1 to \<open>24/25\<close> in 3D
  and to \<open>19/20\<close> in 2D.\<close>

theorem click_and_decay_witness:
  "activationOf (activations (handleActivate 0 init3d)) 0 = 1
   \<and> activations (fire3d 2 (run3d [Click3 0])) = [(0, 24 / 25)]
   \<and> map_of (decayMap (activations (run3d [Click3 0]))) 0 = Some (24 / 25)
   \<and> activeOf (activateNode 0 initialNodes2d) 0 = 1
   \<and> activeOf (map decayNode (activateNode 0 initialNodes2d)) 0 = 19 / 20
   \<and> map id2d (tick2d (activateNode 0 initialNodes2d)) = [0, 1, 2, 3, 4, 5]"
proof -
  note T = click_and_decay[of 0 init3d "[Click3 0]" 0 0 "activateNode 0 initialNodes2d"]
  let ?d = "\<lparr>tid = 2, due = 80, every = Some 80, callback = Decay\<rparr>"
  have h1: "find (\<lambda>n. nid n = 0) nodes \<noteq> None" by code_simp
  have h2: "?d \<in> set (timers (run3d [Click3 0]))" by code_simp
  have h3: "(0::nat) \<in> id2d ` set (activateNode 0 initialNodes2d)" by code_simp
  have v1: "activations (run3d [Click3 0]) = [(0, 1)]" by code_simp
  have v2: "decayMap [(0, 1)] = [(0, 24 / 25)]" by code_simp
  have v3: "activeOf (activateNode 0 initialNodes2d) 0 = 1" by code_simp
  have v4: "activateNode 0 (activateNode 0 initialNodes2d) = activateNode 0 initialNodes2d" by code_simp
  have v5: "map id2d (activateNode 0 initialNodes2d) = [0, 1, 2, 3, 4, 5]" by code_simp
  have a: "activationOf (activations (handleActivate 0 init3d)) 0 = 1" using T h1 by blast
  have "activations (fire3d (tid ?d) (run3d [Click3 0])) = decayMap (activations (run3d [Click3 0]))"
    using T h2 by force
  then have b: "activations (fire3d 2 (run3d [Click3 0])) = [(0, 24 / 25)]" by (simp add: v1 v2)
  have c: "map_of (decayMap (activations (run3d [Click3 0]))) 0 = Some (24 / 25)"
    using T by (simp add: v1)
  have d: "activeOf (activateNode 0 initialNodes2d) 0 = 1" using T h3 v4 by simp
  have e: "activeOf (map decayNode (activateNode 0 initialNodes2d)) 0 = 19 / 20"
    using T by (simp add: v3)
  have f: "map id2d (tick2d (activateNode 0 initialNodes2d)) = [0, 1, 2, 3, 4, 5]"
    using T v5 by simp
  show ?thesis using a b c d e f by blast
qed

text \<open>
  In the 2D diagram, after clicking node 0 and one tick, node 1 (Latency) has
  activation \<open>19/200\<close>; the next tick decays it to \<open>9/200\<close> and the edge from node 0
  (now at \<open>9/10\<close>) adds \<open>9/100\<close>: an active node's activation has grown across a tick.
\<close>

theorem click_and_decay_counterexample:
  "activeOf (nodes2d (run2d [Click2 0, Fire2 1])) 1 = 19 / 200
   \<and> activeOf (nodes2d (run2d [Click2 0, Fire2 1, Fire2 1])) 1 = 27 / 200
   \<and> activeOf (nodes2d (run2d [Click2 0, Fire2 1])) 1
       < activeOf (nodes2d (run2d [Click2 0, Fire2 1, Fire2 1])) 1"
  by code_simp

text \<open>
  C2 (as amended). In the 3D animation the updater of a spread step leaves the
  activation map as it is when the transfer value \<open>strength * 0.65\<close> is less than or
  equal to the neighbour's current activation (0 when it has none), and stores the
  transfer value when it is strictly greater. In the 2D diagram the guard is a
  different one: an edge whose target is in the list changes the target exactly when
  the source's activation is above \<open>0.2\<close> and the target's activation is strictly below
  the source's activation; the target then gains a tenth of the source's activation,
  capped at 1, whether or not that tenth exceeds what the target already has.
\<close>

theorem spread_guard:
  "(transferStrength \<le> activationOf prev neighborId \<longrightarrow> transferTo neighborId transferStrength prev = prev)
   \<and> (activationOf prev neighborId < transferStrength \<longrightarrow>
        activationOf (transferTo neighborId transferStrength prev) neighborId = transferStrength)
   \<and> activations (spreadEdge sourceId strength depth s edge) =
        transferTo (neighborOf sourceId edge) (strength * 0.65) (activations s)
   \<and> (t2d e \<in> id2d ` set ns \<longrightarrow>
        activeOf (fst (spreadEdge2d (ns, changed) e)) (t2d e) =
          (if activeOf ns (s2d e) > 0.2 \<and> activeOf ns (t2d e) < activeOf ns (s2d e)
           then min 1 (activeOf ns (t2d e) + activeOf ns (s2d e) * 0.1)
           else activeOf ns (t2d e)))"
proof -
  have a: "transferStrength \<le> activationOf prev neighborId \<longrightarrow> transferTo neighborId transferStrength prev = prev"
    by (simp add: transferTo_def Let_def)
  have b: "activationOf prev neighborId < transferStrength \<longrightarrow>
        activationOf (transferTo neighborId transferStrength prev) neighborId = transferStrength"
    by (simp add: activationOf_transferTo max_def)
  have d: "t2d e \<in> id2d ` set ns \<longrightarrow>
        activeOf (fst (spreadEdge2d (ns, changed) e)) (t2d e) =
          (if activeOf ns (s2d e) > 0.2 \<and> activeOf ns (t2d e) < activeOf ns (s2d e)
           then min 1 (activeOf ns (t2d e) + activeOf ns (s2d e) * 0.1)
           else activeOf ns (t2d e))"
    using spreadEdge2d_activeOf[of e ns changed "t2d e"] by simp
  show ?thesis using a b d spreadEdge_fields(4)[of sourceId strength depth s edge] by blast
qed

text \<open>The theorem at a neighbour above and below the transfer value, at the first edge
  after a click on the query node in 3D, and at the first edge of the first 2D tick.\<close>

theorem spread_guard_witness:
  "transferTo 1 (13 / 20) [(0, 1), (1, 7 / 10)] = [(0, 1), (1, 7 / 10)]
   \<and> activationOf (transferTo 1 (13 / 20) [(0, 1), (1, 3 / 10)]) 1 = 13 / 20
   \<and> activations (spreadEdge 0 1 1 (run3d [Click3 0]) \<lparr>source = 0, target = 1\<rparr>) = [(0, 1), (1, 13 / 20)]
   \<and> activeOf (fst (spreadEdge2d (map decayNode (activateNode 0 initialNodes2d), True) \<lparr>s2d = 0, t2d = 1\<rparr>)) 1
       = 19 / 200"
proof -
  let ?ns = "map decayNode (activateNode 0 initialNodes2d)"
  have h1: "(13 / 20 :: rat) \<le> activationOf [(0, 1), (1, 7 / 10)] 1" by code_simp
  have h2: "activationOf [(0, 1), (1, 3 / 10)] 1 < (13 / 20 :: rat)" by code_simp
  have h3: "t2d \<lparr>s2d = 0, t2d = 1\<rparr> \<in> id2d ` set ?ns" by code_simp
  have v1: "transferTo (neighborOf 0 \<lparr>source = 0, target = 1\<rparr>) (1 * 0.65) (activations (run3d [Click3 0]))
              = [(0, 1), (1, 13 / 20)]" by code_simp
  have v2: "activeOf ?ns 0 = 19 / 20" "activeOf ?ns 1 = 0" by code_simp+
  have a: "transferTo 1 (13 / 20) [(0, 1), (1, 7 / 10)] = [(0, 1), (1, 7 / 10)]"
    using spread_guard[of "13 / 20" "[(0, 1), (1, 7 / 10)]" 1] h1 by blast
  have b: "activationOf (transferTo 1 (13 / 20) [(0, 1), (1, 3 / 10)]) 1 = 13 / 20"
    using spread_guard[of "13 / 20" "[(0, 1), (1, 3 / 10)]" 1] h2 by blast
  have c: "activations (spreadEdge 0 1 1 (run3d [Click3 0]) \<lparr>source = 0, target = 1\<rparr>) = [(0, 1), (1, 13 / 20)]"
    using spread_guard[of 0 "[]" 0 0 1 1 "run3d [Click3 0]" "\<lparr>source = 0, target = 1\<rparr>"] v1 by simp
  have e1: "t2d \<lparr>s2d = 0, t2d = 1\<rparr> = 1" "s2d \<lparr>s2d = 0, t2d = 1\<rparr> = 0" by simp_all
  have inst: "t2d \<lparr>s2d = 0, t2d = 1\<rparr> \<in> id2d ` set ?ns \<longrightarrow>
        activeOf (fst (spreadEdge2d (?ns, True) \<lparr>s2d = 0, t2d = 1\<rparr>)) (t2d \<lparr>s2d = 0, t2d = 1\<rparr>) =
          (if activeOf ?ns (s2d \<lparr>s2d = 0, t2d = 1\<rparr>) > 0.2
              \<and> activeOf ?ns (t2d \<lparr>s2d = 0, t2d = 1\<rparr>) < activeOf ?ns (s2d \<lparr>s2d = 0, t2d = 1\<rparr>)
           then min 1 (activeOf ?ns (t2d \<lparr>s2d = 0, t2d = 1\<rparr>) + activeOf ?ns (s2d \<lparr>s2d = 0, t2d = 1\<rparr>) * 0.1)
           else activeOf ?ns (t2d \<lparr>s2d = 0, t2d = 1\<rparr>))"
    using spread_guard[of 0 "[]" 0 0 1 1 init3d "\<lparr>source = 0, target = 1\<rparr>" "\<lparr>s2d = 0, t2d = 1\<rparr>" ?ns True]
    by blast
  have d: "activeOf (fst (spreadEdge2d (?ns, True) \<lparr>s2d = 0, t2d = 1\<rparr>)) 1 = 19 / 200"
    using inst h3 by (simp only: e1 v2, simp)
  show ?thesis using a b c d by blast
qed

text \<open>
  The fourth 2D tick after a click on node 0: when the decay loop is done node 0 has
  \<open>4/5\<close> and node 1 has \<open>3/25\<close>. The transfer along the edge from 0 to 1 is
  \<open>2/25\<close>, less than node 1's activation, and the edge still raises node 1 to \<open>1/5\<close>.
\<close>

theorem spread_guard_counterexample:
  "activeOf (map decayNode (nodes2d (run2d [Click2 0, Fire2 1, Fire2 1, Fire2 1]))) 0 * 0.1 = 2 / 25
   \<and> activeOf (map decayNode (nodes2d (run2d [Click2 0, Fire2 1, Fire2 1, Fire2 1]))) 1 = 3 / 25
   \<and> activeOf (fst (spreadEdge2d (map decayNode (nodes2d (run2d [Click2 0, Fire2 1, Fire2 1, Fire2 1])), True)
                   \<lparr>s2d = 0, t2d = 1\<rparr>)) 1 = 1 / 5"
  by code_simp





text \<open>The state of the 3D animation after a click on the query node and \<open>n\<close> decay
  ticks with nothing else in between: the clicked node is the only entry, at
  \<open>(24/25) ^ n\<close>, which stays above \<open>0.05\<close> for 73 ticks.\<close>

lemma run3d_snoc: "run3d (evs @ [e]) = step3d (run3d evs) e"
  by (simp add: run3d_def)

lemma decay_ticks_after_click:
  "n \<le> 73 \<Longrightarrow>
   run3d (Click3 0 # replicate n (Fire3 2)) =
     \<lparr>activations = [(0, (24 / 25) ^ n)], pulseWaves = [((0, 3 / 5, 0), 0)], clockRef = 0,
      decayIntervalRef = Some 2, spreadTimeoutsRef = [1], pulseCleanupRef = Some 3,
      timers = [\<lparr>tid = 1, due = 350, every = None, callback = Spread 0 1 1\<rparr>,
                \<lparr>tid = 2, due = 80 * (n + 1), every = Some 80, callback = Decay\<rparr>,
                \<lparr>tid = 3, due = 4000, every = None, callback = PulseCleanup\<rparr>],
      nextId = 4, now = 80 * n, mounted = True\<rparr>"
proof (induction n)
  case 0
  show ?case by code_simp
next
  case (Suc n)
  have r: "Click3 0 # replicate (Suc n) (Fire3 2) = (Click3 0 # replicate n (Fire3 2)) @ [Fire3 2]"
    by (simp add: replicate_append_same)
  have "(24 / 25 :: rat) ^ 73 \<le> (24 / 25) ^ Suc n"
    using Suc.prems by (intro power_decreasing) simp_all
  moreover have "(1 / 20 :: rat) < (24 / 25) ^ 73" by (simp add: power_divide)
  ultimately have p: "(1 / 20 :: rat) < (24 / 25) ^ Suc n" by linarith
  then have q: "(1 / 20 :: rat) < (24 / 25) ^ n * (24 / 25)" by (simp add: mult.commute)
  have IH: "run3d (Click3 0 # replicate n (Fire3 2)) =
     \<lparr>activations = [(0, (24 / 25) ^ n)], pulseWaves = [((0, 3 / 5, 0), 0)], clockRef = 0,
      decayIntervalRef = Some 2, spreadTimeoutsRef = [1], pulseCleanupRef = Some 3,
      timers = [\<lparr>tid = 1, due = 350, every = None, callback = Spread 0 1 1\<rparr>,
                \<lparr>tid = 2, due = 80 * (n + 1), every = Some 80, callback = Decay\<rparr>,
                \<lparr>tid = 3, due = 4000, every = None, callback = PulseCleanup\<rparr>],
      nextId = 4, now = 80 * n, mounted = True\<rparr>"
    using Suc by simp
  show ?case
    unfolding r run3d_snoc IH
    using q by (simp add: fire3d_def afterFire_def runDecay_def decayMap_def Let_def mult.commute)
qed

text \<open>
  C4 (as amended). In the 3D animation, in every reachable state, when a pending
  decay timer fires it replaces the activation map by \<open>decayMap\<close>; if no entry is
  left, the interval is cleared at once (\<open>decayIntervalRef\<close> is empty and no decay
  timer is pending), and otherwise the same interval stays pending. In the 2D
  diagram the interval never cancels itself: it is pending in every state in which
  the component is mounted, whatever the activations, and it is cleared only by the
  unmount.
\<close>

theorem decay_timer_lifetime:
  "(\<forall>t\<in>set (timers (run3d evs)). callback t = Decay \<longrightarrow>
      activations (fire3d (tid t) (run3d evs)) = decayMap (activations (run3d evs))
      \<and> (decayMap (activations (run3d evs)) = [] \<longrightarrow>
             decayIntervalRef (fire3d (tid t) (run3d evs)) = None
             \<and> list_all (\<lambda>u. callback u \<noteq> Decay) (timers (fire3d (tid t) (run3d evs))))
      \<and> (decayMap (activations (run3d evs)) \<noteq> [] \<longrightarrow>
             decayIntervalRef (fire3d (tid t) (run3d evs)) = Some (tid t)
             \<and> list_ex (\<lambda>u. tid u = tid t \<and> callback u = Decay) (timers (fire3d (tid t) (run3d evs)))))
   \<and> timers2d (run2d evs2) =
       (if mounted2d (run2d evs2)
        then [\<lparr>tid = 1, due = now2d (run2d evs2) + 100, every = Some 100, callback = Tick2d\<rparr>]
        else [])"
proof -
  have "timers2d (run2d evs2) =
       (if mounted2d (run2d evs2)
        then [\<lparr>tid = 1, due = now2d (run2d evs2) + 100, every = Some 100, callback = Tick2d\<rparr>]
        else [])"
    using inv2d_run2d[of evs2] by (simp add: inv2d_def)
  then show ?thesis
    using fire3d_decay_tick[OF inv3d_run3d[of evs]] by blast
qed

text \<open>In the 2D diagram nothing is active after mounting; the interval ticks and is
  still pending after the first and after the second tick.\<close>

theorem decay_timer_lifetime_counterexample:
  "idle2d (nodes2d (run2d [Fire2 1])) \<and> mounted2d (run2d [Fire2 1])
   \<and> timers2d (run2d [Fire2 1]) = [\<lparr>tid = 1, due = 200, every = Some 100, callback = Tick2d\<rparr>]
   \<and> idle2d (nodes2d (run2d [Fire2 1, Fire2 1]))
   \<and> timers2d (run2d [Fire2 1, Fire2 1]) = [\<lparr>tid = 1, due = 300, every = Some 100, callback = Tick2d\<rparr>]"
  by code_simp

text \<open>
  C9. In every state either animation reaches from its initial state by clicks,
  timer callbacks (spread steps, decay ticks, pulse cleanup), clock updates and the
  unmount, every activation is in \<open>[0, 1]\<close>: in 3D every value stored in the
  activation map and the value a node is drawn with (0 without an entry), in 2D the
  \<open>active\<close> field of every node.
\<close>

theorem activation_in_unit_interval:
  "0 \<le> activationOf (activations (run3d evs)) k \<and> activationOf (activations (run3d evs)) k \<le> 1
   \<and> list_all (\<lambda>(key, value). 0 \<le> value \<and> value \<le> 1) (activations (run3d evs))
   \<and> range2d (nodes2d (run2d evs2))
   \<and> 0 \<le> activeOf (nodes2d (run2d evs2)) j \<and> activeOf (nodes2d (run2d evs2)) j \<le> 1"
proof -
  have i: "inv3d (run3d evs)" by (rule inv3d_run3d)
  have a: "list_all (\<lambda>(key, value). 0 \<le> value \<and> value \<le> 1) (activations (run3d evs))"
    using i by (auto simp: inv3d_def actsOk_def list_all_iff)
  have r: "range2d (nodes2d (run2d evs2))"
    using inv2d_run2d[of evs2] by (simp add: inv2d_def)
  have c: "0 \<le> activeOf (nodes2d (run2d evs2)) j \<and> activeOf (nodes2d (run2d evs2)) j \<le> 1"
  proof (cases "find (\<lambda>n. id2d n = j) (nodes2d (run2d evs2))")
    case None
    then show ?thesis by (simp add: activeOf_def)
  next
    case (Some n)
    then have "n \<in> set (nodes2d (run2d evs2))" by (auto simp: find_Some_iff)
    then show ?thesis using r Some by (auto simp: activeOf_def range2d_def list_all_iff)
  qed
  show ?thesis using a r c activationOf_range[of evs k] by blast
qed


text \<open>The theorem after a click, the first spread step and a decay tick in 3D, and
  after a click and a tick in 2D.\<close>

theorem activation_in_unit_interval_witness:
  "activationOf (activations (run3d [Click3 0, Fire3 1, Fire3 2])) 1 = 78 / 125
   \<and> 0 \<le> activationOf (activations (run3d [Click3 0, Fire3 1, Fire3 2])) 1
   \<and> activationOf (activations (run3d [Click3 0, Fire3 1, Fire3 2])) 1 \<le> 1
   \<and> activeOf (nodes2d (run2d [Click2 0, Fire2 1])) 0 = 19 / 20
   \<and> 0 \<le> activeOf (nodes2d (run2d [Click2 0, Fire2 1])) 0
   \<and> activeOf (nodes2d (run2d [Click2 0, Fire2 1])) 0 \<le> 1
   \<and> range2d (nodes2d (run2d [Click2 0, Fire2 1]))"
proof -
  note T = activation_in_unit_interval[of "[Click3 0, Fire3 1, Fire3 2]" 1 "[Click2 0, Fire2 1]" 0]
  have v1: "activationOf (activations (run3d [Click3 0, Fire3 1, Fire3 2])) 1 = 78 / 125" by code_simp
  have v2: "activeOf (nodes2d (run2d [Click2 0, Fire2 1])) 0 = 19 / 20" by code_simp
  show ?thesis using T v1 v2 by blast
qed

text \<open>The decay theorem at the first tick after a click (the interval stays), at the
  74th tick (the map is empty and the interval is cleared), and at an unmounted 2D
  diagram.\<close>

theorem decay_timer_lifetime_witness:
  "activations (fire3d 2 (run3d [Click3 0])) = [(0, 24 / 25)]
   \<and> decayIntervalRef (fire3d 2 (run3d [Click3 0])) = Some 2
   \<and> list_ex (\<lambda>u. tid u = 2 \<and> callback u = Decay) (timers (fire3d 2 (run3d [Click3 0])))
   \<and> activations (fire3d 2 (run3d (Click3 0 # replicate 73 (Fire3 2)))) = []
   \<and> decayIntervalRef (fire3d 2 (run3d (Click3 0 # replicate 73 (Fire3 2)))) = None
   \<and> list_all (\<lambda>u. callback u \<noteq> Decay) (timers (fire3d 2 (run3d (Click3 0 # replicate 73 (Fire3 2)))))
   \<and> timers2d (run2d [Fire2 1, Unmount2]) = []"
proof -
  let ?e1 = "[Click3 0]"
  let ?e2 = "Click3 0 # replicate 73 (Fire3 2)"
  let ?d1 = "\<lparr>tid = 2, due = 80, every = Some 80, callback = Decay\<rparr>"
  let ?d2 = "\<lparr>tid = 2, due = 5920, every = Some 80, callback = Decay\<rparr>"
  have h1: "?d1 \<in> set (timers (run3d ?e1))" by code_simp
  have h2: "?d2 \<in> set (timers (run3d ?e2))" by (simp add: decay_ticks_after_click)
  have n1: "decayMap (activations (run3d ?e1)) = [(0, 24 / 25)]" by code_simp
  have n2: "decayMap (activations (run3d ?e2)) = []"
    by (simp add: decay_ticks_after_click decayMap_def power_divide)
  have m: "\<not> mounted2d (run2d [Fire2 1, Unmount2])" by code_simp
  have t1: "tid ?d1 = 2" "callback ?d1 = Decay" "tid ?d2 = 2" "callback ?d2 = Decay" by simp_all
  have A: "activations (fire3d (tid ?d1) (run3d ?e1)) = decayMap (activations (run3d ?e1))
      \<and> (decayMap (activations (run3d ?e1)) \<noteq> [] \<longrightarrow>
             decayIntervalRef (fire3d (tid ?d1) (run3d ?e1)) = Some (tid ?d1)
             \<and> list_ex (\<lambda>u. tid u = tid ?d1 \<and> callback u = Decay) (timers (fire3d (tid ?d1) (run3d ?e1))))"
    using decay_timer_lifetime[of ?e1 "[]"] h1 t1(2) by blast
  have B: "activations (fire3d (tid ?d2) (run3d ?e2)) = decayMap (activations (run3d ?e2))
      \<and> (decayMap (activations (run3d ?e2)) = [] \<longrightarrow>
             decayIntervalRef (fire3d (tid ?d2) (run3d ?e2)) = None
             \<and> list_all (\<lambda>u. callback u \<noteq> Decay) (timers (fire3d (tid ?d2) (run3d ?e2))))"
    using decay_timer_lifetime[of ?e2 "[]"] h2 t1(4) by blast
  have C: "timers2d (run2d [Fire2 1, Unmount2]) = []"
    using decay_timer_lifetime[of "[]" "[Fire2 1, Unmount2]"] m by simp
  from A n1 have A': "activations (fire3d 2 (run3d ?e1)) = [(0, 24 / 25)]
     \<and> decayIntervalRef (fire3d 2 (run3d ?e1)) = Some 2
     \<and> list_ex (\<lambda>u. tid u = 2 \<and> callback u = Decay) (timers (fire3d 2 (run3d ?e1)))"
    by (simp only: t1) simp
  from B n2 have B': "activations (fire3d 2 (run3d ?e2)) = []
     \<and> decayIntervalRef (fire3d 2 (run3d ?e2)) = None
     \<and> list_all (\<lambda>u. callback u \<noteq> Decay) (timers (fire3d 2 (run3d ?e2)))"
    by (simp only: t1)
  show ?thesis using A' B' C by blast
qed

end
